theory Spec2Isabelle
  imports Main "HOL-Library.AList"
begin

section \<open>The WebSocket chat example: data model\<close>

text \<open>
  The development embeds the in-memory chat registries of the \<^verbatim>\<open>websocket-chat\<close>
  example: \<^verbatim>\<open>ChatManager\<close> (server.ts), and \<^verbatim>\<open>MessageStore\<close>, \<^verbatim>\<open>RoomManager\<close> and
  \<^verbatim>\<open>SessionManager\<close> (the chat modules).

  Conventions.
  \<^item> A JavaScript \<^verbatim>\<open>Map\<close> whose iteration order is observable is an association list
    in insertion order: \<^verbatim>\<open>get\<close> is \<open>map_of\<close>, \<^verbatim>\<open>set\<close> is \<open>AList.update\<close> (in place for
    an existing key, appended for a new one), \<^verbatim>\<open>delete\<close> is \<open>AList.delete\<close>.
  \<^item> A JavaScript \<^verbatim>\<open>Set<string>\<close> is a duplicate-free list in insertion order.
  \<^item> A \<^verbatim>\<open>Date\<close> is its \<^verbatim>\<open>getTime()\<close> value in milliseconds; every operation that calls
    \<^verbatim>\<open>new Date()\<close> takes the clock reading \<open>now\<close> as an argument.
  \<^item> \<^verbatim>\<open>crypto.randomUUID()\<close> is an argument of the operation that calls it.
  \<^item> Objects held in maps are mutated in place by the source; the model writes the
    updated object back under its key.
  \<^item> \<^verbatim>\<open>session.ws.send(...)\<close> is an effect: every operation returns the list of
    deliveries it attempted, in order, each a pair of the receiving session's id and the
    envelope. A throwing \<^verbatim>\<open>send\<close> is caught per connection by the source and the loop
    goes on, so the list of attempts does not depend on it.
\<close>

type_synonym Date = int

datatype ChatMessageType = TypeMessage | TypeSystem

record ChatMessage =
  cm_id :: string
  cm_content :: string
  cm_userId :: string
  cm_username :: string
  cm_roomId :: string
  cm_timestamp :: Date
  cm_type :: ChatMessageType

record ChatRoom =
  cr_id :: string
  cr_name :: string
  cr_description :: string
  cr_isPrivate :: bool
  cr_users :: "string list"
  cr_messages :: "ChatMessage list"
  cr_createdAt :: Date

record ChatUser =
  cu_id :: string
  cu_username :: string
  cu_isGuest :: bool
  cu_joinedAt :: Date

record ChatSession =
  cs_id :: string
  cs_userId :: string
  cs_username :: string
  cs_ws :: nat
  cs_currentRoom :: "string option"
  cs_isGuest :: bool

record TypingIndicator =
  ti_userId :: string
  ti_roomId :: string
  ti_timestamp :: Date

record ChatManager =
  chat_rooms :: "(string \<times> ChatRoom) list"
  chat_users :: "(string \<times> ChatUser) list"
  chat_sessions :: "(string \<times> ChatSession) list"
  chat_typingIndicators :: "(string \<times> TypingIndicator) list"

text \<open>The entry of a \<^verbatim>\<open>room_users\<close> member list: id, username, guest flag.\<close>

type_synonym RoomUser = "string \<times> string \<times> bool"

text \<open>The outbound envelope \<^verbatim>\<open>{type, data, timestamp}\<close>; the constructor is the type tag.\<close>

datatype EnvelopeData =
    UserJoined string
  | UserLeft string
  | RoomUsers string "RoomUser list"
  | MessageData ChatMessage
  | TypingStart string
  | TypingStop string

datatype Envelope = Envelope (env_data: EnvelopeData) (env_timestamp: Date)

type_synonym Delivery = "string \<times> Envelope"

subsection \<open>JavaScript helpers\<close>

definition set_add :: "'a \<Rightarrow> 'a list \<Rightarrow> 'a list" where
  "set_add x xs = (if x \<in> set xs then xs else xs @ [x])"

definition set_delete :: "'a \<Rightarrow> 'a list \<Rightarrow> 'a list" where
  "set_delete x xs = removeAll x xs"

text \<open>Truthiness of an optional string: \<^verbatim>\<open>undefined\<close> and the empty string are falsy.\<close>

fun truthy :: "string option \<Rightarrow> bool" where
  "truthy None = False"
| "truthy (Some s) = (s \<noteq> [])"

text \<open>\<^verbatim>\<open>xs.slice(-n)\<close> for a positive \<open>n\<close>: the last \<open>n\<close> elements.\<close>

definition slice_last :: "nat \<Rightarrow> 'a list \<Rightarrow> 'a list" where
  "slice_last n xs = drop (length xs - n) xs"

section \<open>ChatManager (server.ts)\<close>

definition createDefaultRooms :: "Date \<Rightarrow> (string \<times> ChatRoom) list" where
  "createDefaultRooms now =
     map (\<lambda>(i, n, d). (i, \<lparr>cr_id = i, cr_name = n, cr_description = d, cr_isPrivate = False,
                             cr_users = [], cr_messages = [], cr_createdAt = now\<rparr>))
       [(''general'', ''General'', ''General discussion for everyone''),
        (''random'', ''Random'', ''Random conversations and fun topics''),
        (''tech'', ''Tech Talk'', ''Technology and programming discussions''),
        (''gaming'', ''Gaming'', ''Video games and gaming discussion'')]"

definition newChatManager :: "Date \<Rightarrow> ChatManager" where
  "newChatManager now =
     \<lparr>chat_rooms = createDefaultRooms now, chat_users = [], chat_sessions = [],
      chat_typingIndicators = []\<rparr>"

definition createUser :: "string \<Rightarrow> Date \<Rightarrow> ChatManager \<Rightarrow> string \<Rightarrow> bool \<Rightarrow> ChatManager \<times> ChatUser" where
  "createUser uuid now st username isGuest =
     (let user = \<lparr>cu_id = uuid, cu_username = username, cu_isGuest = isGuest, cu_joinedAt = now\<rparr>
      in (st\<lparr>chat_users := AList.update uuid user (chat_users st)\<rparr>, user))"

definition createSession ::
  "string \<Rightarrow> ChatManager \<Rightarrow> string \<Rightarrow> string \<Rightarrow> nat \<Rightarrow> bool \<Rightarrow> ChatManager \<times> ChatSession" where
  "createSession uuid st userId username ws isGuest =
     (let session = \<lparr>cs_id = uuid, cs_userId = userId, cs_username = username, cs_ws = ws,
                      cs_currentRoom = None, cs_isGuest = isGuest\<rparr>
      in (st\<lparr>chat_sessions := AList.update uuid session (chat_sessions st)\<rparr>, session))"

definition broadcastToRoom :: "ChatManager \<Rightarrow> string \<Rightarrow> Envelope \<Rightarrow> string list \<Rightarrow> Delivery list" where
  "broadcastToRoom st roomId message excludeSessions =
     (case map_of (chat_rooms st) roomId of
        None \<Rightarrow> []
      | Some room \<Rightarrow>
          map (\<lambda>(sessionId, session). (sessionId, message))
            (filter (\<lambda>(sessionId, session).
                       cs_currentRoom session = Some roomId \<and> sessionId \<notin> set excludeSessions)
               (chat_sessions st)))"

definition broadcastRoomUsers :: "Date \<Rightarrow> ChatManager \<Rightarrow> string \<Rightarrow> Delivery list" where
  "broadcastRoomUsers now st roomId =
     (case map_of (chat_rooms st) roomId of
        None \<Rightarrow> []
      | Some room \<Rightarrow>
          (let users = List.map_filter
                 (\<lambda>userId. case map_of (chat_users st) userId of
                              None \<Rightarrow> None
                            | Some user \<Rightarrow> Some (cu_id user, cu_username user, cu_isGuest user))
                 (cr_users room)
           in broadcastToRoom st roomId (Envelope (RoomUsers roomId users) now) []))"

definition leaveRoom :: "Date \<Rightarrow> ChatManager \<Rightarrow> string \<Rightarrow> string \<Rightarrow> ChatManager \<times> Delivery list" where
  "leaveRoom now st sessionId roomId =
     (case map_of (chat_sessions st) sessionId of
        None \<Rightarrow> (st, [])
      | Some session \<Rightarrow>
         (case map_of (chat_rooms st) roomId of
            None \<Rightarrow> (st, [])
          | Some room \<Rightarrow>
             (let room' = room\<lparr>cr_users := set_delete (cs_userId session) (cr_users room)\<rparr>;
                  session' = session\<lparr>cs_currentRoom := None\<rparr>;
                  st' = st\<lparr>chat_rooms := AList.update roomId room' (chat_rooms st),
                           chat_sessions := AList.update sessionId session' (chat_sessions st)\<rparr>
              in (st', broadcastToRoom st' roomId (Envelope (UserLeft (cs_username session)) now) []
                         @ broadcastRoomUsers now st' roomId))))"

text \<open>
  In \<^verbatim>\<open>joinRoom\<close> the variables \<^verbatim>\<open>session\<close> and \<^verbatim>\<open>room\<close> are references fetched before the
  implicit leave; the leave mutates the very same objects, so after it the model reads
  both again from the state (the leave removes no key, so both are still found).
\<close>

definition joinRoom :: "Date \<Rightarrow> ChatManager \<Rightarrow> string \<Rightarrow> string \<Rightarrow> bool \<times> ChatManager \<times> Delivery list" where
  "joinRoom now st sessionId roomId =
     (case map_of (chat_sessions st) sessionId of
        None \<Rightarrow> (False, st, [])
      | Some session0 \<Rightarrow>
         (case map_of (chat_rooms st) roomId of
            None \<Rightarrow> (False, st, [])
          | Some room0 \<Rightarrow>
             (let (st1, out1) =
                    (if truthy (cs_currentRoom session0)
                     then leaveRoom now st sessionId (the (cs_currentRoom session0))
                     else (st, []));
                  session = (case map_of (chat_sessions st1) sessionId of Some s \<Rightarrow> s | None \<Rightarrow> session0);
                  room = (case map_of (chat_rooms st1) roomId of Some r \<Rightarrow> r | None \<Rightarrow> room0);
                  room' = room\<lparr>cr_users := set_add (cs_userId session) (cr_users room)\<rparr>;
                  session' = session\<lparr>cs_currentRoom := Some roomId\<rparr>;
                  st2 = st1\<lparr>chat_rooms := AList.update roomId room' (chat_rooms st1),
                            chat_sessions := AList.update sessionId session' (chat_sessions st1)\<rparr>
              in (True, st2,
                  out1 @ broadcastToRoom st2 roomId (Envelope (UserJoined (cs_username session)) now) []
                       @ broadcastRoomUsers now st2 roomId))))"


definition sendMessage ::
  "string \<Rightarrow> Date \<Rightarrow> ChatManager \<Rightarrow> string \<Rightarrow> string \<Rightarrow> bool \<times> ChatManager \<times> Delivery list" where
  "sendMessage uuid now st sessionId content =
     (case map_of (chat_sessions st) sessionId of
        None \<Rightarrow> (False, st, [])
      | Some session \<Rightarrow>
         if \<not> truthy (cs_currentRoom session) then (False, st, [])
         else
          (let currentRoom = the (cs_currentRoom session) in
           case map_of (chat_rooms st) currentRoom of
             None \<Rightarrow> (False, st, [])
           | Some room \<Rightarrow>
              (let message = \<lparr>cm_id = uuid, cm_content = content, cm_userId = cs_userId session,
                              cm_username = cs_username session, cm_roomId = currentRoom,
                              cm_timestamp = now, cm_type = TypeMessage\<rparr>;
                   pushed = cr_messages room @ [message];
                   kept = (if length pushed > 100 then slice_last 100 pushed else pushed);
                   st' = st\<lparr>chat_rooms :=
                              AList.update currentRoom (room\<lparr>cr_messages := kept\<rparr>) (chat_rooms st)\<rparr>
               in (True, st', broadcastToRoom st' currentRoom (Envelope (MessageData message) now) []))))"

text \<open>The typing-indicator key is the template string \<^verbatim>\<open>`${session.userId}-${roomId}`\<close>.\<close>

definition typingKey :: "string \<Rightarrow> string \<Rightarrow> string" where
  "typingKey userId roomId = userId @ ''-'' @ roomId"

definition startTyping :: "Date \<Rightarrow> ChatManager \<Rightarrow> string \<Rightarrow> string \<Rightarrow> ChatManager \<times> Delivery list" where
  "startTyping now st sessionId roomId =
     (case map_of (chat_sessions st) sessionId of
        None \<Rightarrow> (st, [])
      | Some session \<Rightarrow>
         (let key = typingKey (cs_userId session) roomId;
              st' = st\<lparr>chat_typingIndicators :=
                         AList.update key \<lparr>ti_userId = cs_userId session, ti_roomId = roomId,
                                           ti_timestamp = now\<rparr> (chat_typingIndicators st)\<rparr>
          in (st', broadcastToRoom st' roomId (Envelope (TypingStart (cs_username session)) now)
                     [sessionId])))"

definition stopTyping :: "Date \<Rightarrow> ChatManager \<Rightarrow> string \<Rightarrow> string \<Rightarrow> ChatManager \<times> Delivery list" where
  "stopTyping now st sessionId roomId =
     (case map_of (chat_sessions st) sessionId of
        None \<Rightarrow> (st, [])
      | Some session \<Rightarrow>
         (let key = typingKey (cs_userId session) roomId;
              st' = st\<lparr>chat_typingIndicators := AList.delete key (chat_typingIndicators st)\<rparr>
          in (st', broadcastToRoom st' roomId (Envelope (TypingStop (cs_username session)) now)
                     [sessionId])))"

definition getUsernameById :: "ChatManager \<Rightarrow> string \<Rightarrow> string" where
  "getUsernameById st userId =
     (case map_of (chat_users st) userId of Some user \<Rightarrow> cu_username user | None \<Rightarrow> ''Unknown'')"

text \<open>
  The body of the \<^verbatim>\<open>setInterval\<close> callback of \<^verbatim>\<open>startTypingCleanup\<close>, run once per tick.
  The loop iterates over the entries of the indicator map and deletes only the entry it
  is visiting, so it visits every entry present at the start of the tick exactly once, in
  insertion order: the model recurses over that list of entries.
\<close>

definition typingTimeoutMs :: int where
  "typingTimeoutMs = 5000"

definition typingCleanupIntervalMs :: int where
  "typingCleanupIntervalMs = 1000"

fun typingCleanupLoop ::
  "Date \<Rightarrow> (string \<times> TypingIndicator) list \<Rightarrow> ChatManager \<times> Delivery list \<Rightarrow> ChatManager \<times> Delivery list" where
  "typingCleanupLoop now [] acc = acc"
| "typingCleanupLoop now ((key, indicator) # rest) (st, out) =
     (if now - ti_timestamp indicator > typingTimeoutMs
      then
        (let st' = st\<lparr>chat_typingIndicators := AList.delete key (chat_typingIndicators st)\<rparr>
         in typingCleanupLoop now rest
              (st', out @ broadcastToRoom st' (ti_roomId indicator)
                            (Envelope (TypingStop (getUsernameById st' (ti_userId indicator))) now) []))
      else typingCleanupLoop now rest (st, out))"

definition typingCleanupTick :: "Date \<Rightarrow> ChatManager \<Rightarrow> ChatManager \<times> Delivery list" where
  "typingCleanupTick now st = typingCleanupLoop now (chat_typingIndicators st) (st, [])"

section \<open>MessageStore (chat/messages.ts)\<close>

text \<open>
  \<^verbatim>\<open>messages\<close> maps a room id to its history array and \<^verbatim>\<open>messageIndex\<close> maps a message
  id to the message. The source stores the same object in both; the operations embedded
  here (\<^verbatim>\<open>addMessage\<close>, \<^verbatim>\<open>getMessage\<close>, \<^verbatim>\<open>deleteMessage\<close>, \<^verbatim>\<open>cleanupOldMessages\<close>) never
  write to a stored message, so the sharing cannot be observed through them and both
  maps hold the message as a value.
\<close>

datatype MessageType = TextMessage | SystemMessage | PrivateMessage

record Message =
  msg_id :: string
  msg_roomId :: string
  msg_userId :: string
  msg_content :: string
  msg_type :: MessageType
  msg_timestamp :: Date
  msg_replyTo :: "string option"
  msg_reactions :: "(string \<times> string list) list"
  msg_edited :: "Date option"

record MessageStore =
  ms_messages :: "(string \<times> Message list) list"
  ms_messageIndex :: "(string \<times> Message) list"

text \<open>The result object \<^verbatim>\<open>{ success: boolean; error?: string }\<close>.\<close>

record OpResult =
  success :: bool
  error :: "string option"

definition newMessageStore :: MessageStore where
  "newMessageStore = \<lparr>ms_messages = [], ms_messageIndex = []\<rparr>"

text \<open>
  \<^verbatim>\<open>roomMessages.splice(0, roomMessages.length - maxMessages)\<close> removes the first
  \<open>length - maxMessages\<close> elements in place and returns them; each removed id is then
  deleted from the index.
\<close>

definition cleanupOldMessages :: "MessageStore \<Rightarrow> string \<Rightarrow> nat \<Rightarrow> MessageStore" where
  "cleanupOldMessages st roomId maxMessages =
     (case map_of (ms_messages st) roomId of
        None \<Rightarrow> st
      | Some roomMessages \<Rightarrow>
          if length roomMessages > maxMessages then
            (let toRemove = take (length roomMessages - maxMessages) roomMessages;
                 remaining = drop (length roomMessages - maxMessages) roomMessages
             in \<lparr>ms_messages = AList.update roomId remaining (ms_messages st),
                 ms_messageIndex = fold (\<lambda>msg index. AList.delete (msg_id msg) index) toRemove
                                     (ms_messageIndex st)\<rparr>)
          else st)"

definition defaultMaxMessages :: nat where
  "defaultMaxMessages = 1000"

definition addMessage ::
  "string \<Rightarrow> Date \<Rightarrow> MessageStore \<Rightarrow> string \<Rightarrow> string \<Rightarrow> string \<Rightarrow> MessageType \<Rightarrow> string option
     \<Rightarrow> MessageStore \<times> Message" where
  "addMessage uuid now st roomId userId content type replyTo =
     (let message = \<lparr>msg_id = uuid, msg_roomId = roomId, msg_userId = userId, msg_content = content,
                      msg_type = type, msg_timestamp = now, msg_replyTo = replyTo,
                      msg_reactions = [], msg_edited = None\<rparr>;
          messages1 = (if map_of (ms_messages st) roomId = None
                       then AList.update roomId [] (ms_messages st) else ms_messages st);
          messages2 = AList.update roomId (the (map_of messages1 roomId) @ [message]) messages1;
          st2 = \<lparr>ms_messages = messages2,
                 ms_messageIndex = AList.update uuid message (ms_messageIndex st)\<rparr>
      in (cleanupOldMessages st2 roomId defaultMaxMessages, message))"

definition getMessage :: "MessageStore \<Rightarrow> string \<Rightarrow> Message option" where
  "getMessage st messageId = map_of (ms_messageIndex st) messageId"

text \<open>
  \<^verbatim>\<open>findIndex\<close> followed by \<^verbatim>\<open>splice(index, 1)\<close> removes the first element with the given
  id, if there is one.
\<close>

fun removeFirstWithId :: "string \<Rightarrow> Message list \<Rightarrow> Message list" where
  "removeFirstWithId messageId [] = []"
| "removeFirstWithId messageId (m # ms) =
     (if msg_id m = messageId then ms else m # removeFirstWithId messageId ms)"

definition deleteMessage :: "MessageStore \<Rightarrow> string \<Rightarrow> string \<Rightarrow> bool \<Rightarrow> MessageStore \<times> OpResult" where
  "deleteMessage st messageId userId isModeratorAction =
     (case map_of (ms_messageIndex st) messageId of
        None \<Rightarrow> (st, \<lparr>success = False, error = Some ''Message not found''\<rparr>)
      | Some message \<Rightarrow>
          if \<not> isModeratorAction \<and> msg_userId message \<noteq> userId
          then (st, \<lparr>success = False, error = Some ''Can only delete your own messages''\<rparr>)
          else
            (let messages' =
                   (case map_of (ms_messages st) (msg_roomId message) of
                      None \<Rightarrow> ms_messages st
                    | Some roomMessages \<Rightarrow>
                        AList.update (msg_roomId message)
                          (removeFirstWithId messageId roomMessages) (ms_messages st))
             in (\<lparr>ms_messages = messages',
                  ms_messageIndex = AList.delete messageId (ms_messageIndex st)\<rparr>,
                 \<lparr>success = True, error = None\<rparr>)))"

section \<open>RoomManager (chat/rooms)\<close>

record Room =
  room_id :: string
  room_name :: string
  room_description :: string
  room_isPrivate :: bool
  room_createdBy :: string
  room_createdAt :: Date
  room_maxUsers :: "nat option"
  room_users :: "string list"
  room_moderators :: "string list"

record RoomManager =
  rm_rooms :: "(string \<times> Room) list"

definition newRoomManager :: "Date \<Rightarrow> RoomManager" where
  "newRoomManager now =
     (let generalRoom = \<lparr>room_id = ''general'', room_name = ''General'',
                          room_description = ''General discussion for everyone'',
                          room_isPrivate = False, room_createdBy = ''system'', room_createdAt = now,
                          room_maxUsers = None, room_users = [], room_moderators = [''system'']\<rparr>;
          randomRoom = \<lparr>room_id = ''random'', room_name = ''Random'',
                         room_description = ''Random conversations and off-topic chat'',
                         room_isPrivate = False, room_createdBy = ''system'', room_createdAt = now,
                         room_maxUsers = None, room_users = [], room_moderators = [''system'']\<rparr>
      in \<lparr>rm_rooms = AList.update (room_id randomRoom) randomRoom
                         (AList.update (room_id generalRoom) generalRoom [])\<rparr>)"

definition createRoom ::
  "string \<Rightarrow> Date \<Rightarrow> RoomManager \<Rightarrow> string \<Rightarrow> string \<Rightarrow> string \<Rightarrow> bool \<Rightarrow> RoomManager \<times> Room" where
  "createRoom uuid now st name description createdBy isPrivate =
     (let room = \<lparr>room_id = uuid, room_name = name, room_description = description,
                   room_isPrivate = isPrivate, room_createdBy = createdBy, room_createdAt = now,
                   room_maxUsers = None, room_users = [], room_moderators = [createdBy]\<rparr>
      in (st\<lparr>rm_rooms := AList.update uuid room (rm_rooms st)\<rparr>, room))"

definition isModerator :: "RoomManager \<Rightarrow> string \<Rightarrow> string \<Rightarrow> bool" where
  "isModerator st roomId userId =
     (case map_of (rm_rooms st) roomId of
        None \<Rightarrow> False
      | Some room \<Rightarrow> userId \<in> set (room_moderators room))"

definition addModerator :: "RoomManager \<Rightarrow> string \<Rightarrow> string \<Rightarrow> string \<Rightarrow> RoomManager \<times> OpResult" where
  "addModerator st roomId userId requesterId =
     (case map_of (rm_rooms st) roomId of
        None \<Rightarrow> (st, \<lparr>success = False, error = Some ''Room not found''\<rparr>)
      | Some room \<Rightarrow>
          if \<not> isModerator st roomId requesterId \<and> room_createdBy room \<noteq> requesterId
          then (st, \<lparr>success = False, error = Some ''Only moderators can add moderators''\<rparr>)
          else (st\<lparr>rm_rooms := AList.update roomId
                        (room\<lparr>room_moderators := set_add userId (room_moderators room)\<rparr>) (rm_rooms st)\<rparr>,
                \<lparr>success = True, error = None\<rparr>))"

definition deleteRoom :: "RoomManager \<Rightarrow> string \<Rightarrow> string \<Rightarrow> RoomManager \<times> OpResult" where
  "deleteRoom st roomId requesterId =
     (case map_of (rm_rooms st) roomId of
        None \<Rightarrow> (st, \<lparr>success = False, error = Some ''Room not found''\<rparr>)
      | Some room \<Rightarrow>
          if room_createdBy room \<noteq> requesterId
          then (st, \<lparr>success = False, error = Some ''Only room creator can delete the room''\<rparr>)
          else if roomId \<in> set [''general'', ''random'']
          then (st, \<lparr>success = False, error = Some ''Cannot delete default rooms''\<rparr>)
          else (st\<lparr>rm_rooms := AList.delete roomId (rm_rooms st)\<rparr>, \<lparr>success = True, error = None\<rparr>))"

section \<open>SessionManager (chat/sessions)\<close>

datatype UserStatus = Online | Away | Offline

record User =
  user_id :: string
  user_username :: string
  user_displayName :: string
  user_isGuest :: bool
  user_joinedAt :: Date
  user_lastSeen :: Date
  user_avatar :: "string option"
  user_status :: UserStatus

record SessionManager =
  sm_sessions :: "(string \<times> string) list"
  sm_users :: "(string \<times> User) list"

definition newSessionManager :: SessionManager where
  "newSessionManager = \<lparr>sm_sessions = [], sm_users = []\<rparr>"

definition SessionManager_createUser ::
  "string \<Rightarrow> Date \<Rightarrow> SessionManager \<Rightarrow> string \<Rightarrow> bool \<Rightarrow> SessionManager \<times> User" where
  "SessionManager_createUser uuid now st username isGuest =
     (let user = \<lparr>user_id = uuid, user_username = username, user_displayName = username,
                   user_isGuest = isGuest, user_joinedAt = now, user_lastSeen = now,
                   user_avatar = None, user_status = Online\<rparr>
      in (st\<lparr>sm_users := AList.update uuid user (sm_users st)\<rparr>, user))"

definition SessionManager_createSession :: "string \<Rightarrow> SessionManager \<Rightarrow> User \<Rightarrow> SessionManager \<times> string" where
  "SessionManager_createSession uuid st user =
     (st\<lparr>sm_sessions := AList.update uuid (user_id user) (sm_sessions st)\<rparr>, uuid)"

definition updateUserStatus :: "Date \<Rightarrow> SessionManager \<Rightarrow> string \<Rightarrow> UserStatus \<Rightarrow> SessionManager" where
  "updateUserStatus now st userId status =
     (case map_of (sm_users st) userId of
        None \<Rightarrow> st
      | Some user \<Rightarrow>
          st\<lparr>sm_users := AList.update userId (user\<lparr>user_status := status, user_lastSeen := now\<rparr>)
                            (sm_users st)\<rparr>)"

text \<open>\<^verbatim>\<open>if (userId)\<close> is false for a missing session and for an empty user id.\<close>

definition SessionManager_removeSession :: "Date \<Rightarrow> SessionManager \<Rightarrow> string \<Rightarrow> SessionManager" where
  "SessionManager_removeSession now st sessionId =
     (if truthy (map_of (sm_sessions st) sessionId)
      then (let st1 = updateUserStatus now st (the (map_of (sm_sessions st) sessionId)) Offline
            in st1\<lparr>sm_sessions := AList.delete sessionId (sm_sessions st1)\<rparr>)
      else st)"

definition getAllUsers :: "SessionManager \<Rightarrow> User list" where
  "getAllUsers st = map snd (sm_users st)"

definition getOnlineUsers :: "SessionManager \<Rightarrow> User list" where
  "getOnlineUsers st = filter (\<lambda>u. user_status u = Online) (map snd (sm_users st))"

text \<open>
  Strings. A JavaScript string is a sequence of UTF-16 code units; the model uses
  \<^typ>\<open>string\<close> and reads a \<^typ>\<open>char\<close> as the code unit of the same number, so it covers the
  strings whose code units are below 256 (Latin-1). On these, \<^verbatim>\<open>length\<close> is the list
  length, \<^verbatim>\<open>trim\<close> strips the white space and line terminator characters
  (U+0009 to U+000D, U+0020, U+00A0), and \<^verbatim>\<open>toLowerCase\<close> maps A to Z and the Latin-1
  capitals U+00C0 to U+00DE (without the multiplication sign U+00D7) to the letter 32
  code points above.
\<close>

definition isWhiteSpace :: "char \<Rightarrow> bool" where
  "isWhiteSpace c \<longleftrightarrow> (of_char c :: nat) \<in> {9, 10, 11, 12, 13, 32, 160}"

definition trim :: "string \<Rightarrow> string" where
  "trim s = rev (dropWhile isWhiteSpace (rev (dropWhile isWhiteSpace s)))"

definition lowerChar :: "char \<Rightarrow> char" where
  "lowerChar c =
     (let n = (of_char c :: nat)
      in if (65 \<le> n \<and> n \<le> 90) \<or> (192 \<le> n \<and> n \<le> 222 \<and> n \<noteq> 215) then char_of (n + 32) else c)"

definition toLowerCase :: "string \<Rightarrow> string" where
  "toLowerCase s = map lowerChar s"

text \<open>The character class \<^verbatim>\<open>[a-zA-Z0-9_-]\<close>.\<close>

definition isUsernameChar :: "char \<Rightarrow> bool" where
  "isUsernameChar c =
     (let n = (of_char c :: nat)
      in (97 \<le> n \<and> n \<le> 122) \<or> (65 \<le> n \<and> n \<le> 90) \<or> (48 \<le> n \<and> n \<le> 57) \<or> n = 95 \<or> n = 45)"

text \<open>\<^verbatim>\<open>/^[a-zA-Z0-9_-]+$/.test(username)\<close>: one or more class characters and nothing else.\<close>

definition usernamePatternTest :: "string \<Rightarrow> bool" where
  "usernamePatternTest s \<longleftrightarrow> s \<noteq> [] \<and> list_all isUsernameChar s"

record ValidationResult =
  valid :: bool
  verror :: "string option"

definition validateUsername :: "SessionManager \<Rightarrow> string \<Rightarrow> ValidationResult" where
  "validateUsername st username =
     (if username = [] \<or> length (trim username) = 0
      then \<lparr>valid = False, verror = Some ''Username is required''\<rparr>
      else if length username < 2 \<or> length username > 20
      then \<lparr>valid = False, verror = Some ''Username must be 2-20 characters''\<rparr>
      else if \<not> usernamePatternTest username
      then \<lparr>valid = False,
            verror = Some ''Username can only contain letters, numbers, underscore, and dash''\<rparr>
      else
        (case find (\<lambda>u. toLowerCase (user_username u) = toLowerCase username) (map snd (sm_users st)) of
           Some existingUser \<Rightarrow> \<lparr>valid = False, verror = Some ''Username already taken''\<rparr>
         | None \<Rightarrow> \<lparr>valid = True, verror = None\<rparr>))"

section \<open>Invariants and reference states\<close>

subsection \<open>ChatManager: well-formed registries and membership consistency\<close>

text \<open>
  A registry is well formed when the keys of the room and session maps are unique (as
  they are in a \<^verbatim>\<open>Map\<close>), every room is stored under its own non-empty id, and distinct
  sessions belong to distinct users (the connection handler creates a fresh user for each
  session).
\<close>

definition registry_ok :: "ChatManager \<Rightarrow> bool" where
  "registry_ok st \<longleftrightarrow>
     distinct (map fst (chat_rooms st)) \<and>
     distinct (map fst (chat_sessions st)) \<and>
     distinct (map (\<lambda>(sessionId, session). cs_userId session) (chat_sessions st)) \<and>
     (\<forall>(roomId, room) \<in> set (chat_rooms st). cr_id room = roomId \<and> roomId \<noteq> [])"

text \<open>The user ids of the sessions whose current room is \<open>roomId\<close>.\<close>

definition sessionUsersIn :: "ChatManager \<Rightarrow> string \<Rightarrow> string set" where
  "sessionUsersIn st roomId =
     set (map (\<lambda>(sessionId, session). cs_userId session)
            (filter (\<lambda>(sessionId, session). cs_currentRoom session = Some roomId) (chat_sessions st)))"

definition membership_consistent :: "ChatManager \<Rightarrow> bool" where
  "membership_consistent st \<longleftrightarrow>
     (\<forall>(roomId, room) \<in> set (chat_rooms st). set (cr_users room) = sessionUsersIn st (cr_id room))"






text \<open>The registry after the two writes of \<^verbatim>\<open>leaveRoom\<close>, and after the two writes of \<^verbatim>\<open>joinRoom\<close>.\<close>

definition leftState :: "ChatManager \<Rightarrow> string \<Rightarrow> string \<Rightarrow> ChatSession \<Rightarrow> ChatRoom \<Rightarrow> ChatManager" where
  "leftState st sid rid session room =
     st\<lparr>chat_rooms := AList.update rid
                        (room\<lparr>cr_users := removeAll (cs_userId session) (cr_users room)\<rparr>) (chat_rooms st),
        chat_sessions := AList.update sid (session\<lparr>cs_currentRoom := None\<rparr>) (chat_sessions st)\<rparr>"

definition joinedState :: "ChatManager \<Rightarrow> string \<Rightarrow> string \<Rightarrow> ChatSession \<Rightarrow> ChatRoom \<Rightarrow> ChatManager" where
  "joinedState st sid rid session room =
     st\<lparr>chat_rooms := AList.update rid
                        (room\<lparr>cr_users := set_add (cs_userId session) (cr_users room)\<rparr>) (chat_rooms st),
        chat_sessions := AList.update sid (session\<lparr>cs_currentRoom := Some rid\<rparr>) (chat_sessions st)\<rparr>"

subsection \<open>Reference states of the chat server\<close>

text \<open>
  Alice connects (user \<open>u1\<close>, session \<open>s1\<close>) and joins \<open>general\<close>; then either Bob connects
  (user \<open>u2\<close>, session \<open>s2\<close>) and joins \<open>general\<close> too, or a second session \<open>s2\<close> is created
  for Alice's own user id and joins \<open>general\<close>.
\<close>

definition aliceConnected :: ChatManager where
  "aliceConnected =
     fst (createSession ''s1'' (fst (createUser ''u1'' 0 (newChatManager 0) ''Alice'' False))
            ''u1'' ''Alice'' 1 False)"

definition aliceInGeneral :: ChatManager where
  "aliceInGeneral = fst (snd (joinRoom 1 aliceConnected ''s1'' ''general''))"

definition aliceBobInGeneral :: ChatManager where
  "aliceBobInGeneral =
     fst (snd (joinRoom 3
       (fst (createSession ''s2'' (fst (createUser ''u2'' 2 aliceInGeneral ''Bob'' True))
               ''u2'' ''Bob'' 2 True))
       ''s2'' ''general''))"


subsection \<open>ChatManager: receivers, member lists and the typing sweep\<close>

definition sessionsInRoom :: "ChatManager \<Rightarrow> string \<Rightarrow> string list" where
  "sessionsInRoom st roomId =
     map fst (filter (\<lambda>(sessionId, session). cs_currentRoom session = Some roomId) (chat_sessions st))"

definition roomUserList :: "ChatManager \<Rightarrow> string list \<Rightarrow> RoomUser list" where
  "roomUserList st userIds =
     List.map_filter
       (\<lambda>userId. case map_of (chat_users st) userId of
                    None \<Rightarrow> None
                  | Some user \<Rightarrow> Some (cu_id user, cu_username user, cu_isGuest user))
       userIds"

definition expired :: "Date \<Rightarrow> TypingIndicator \<Rightarrow> bool" where
  "expired now indicator \<longleftrightarrow> now - ti_timestamp indicator > typingTimeoutMs"

definition typingStopNotices :: "Date \<Rightarrow> ChatManager \<Rightarrow> (string \<times> TypingIndicator) list \<Rightarrow> Delivery list" where
  "typingStopNotices now st entries =
     concat (map (\<lambda>(key, indicator).
                    broadcastToRoom st (ti_roomId indicator)
                      (Envelope (TypingStop (getUsernameById st (ti_userId indicator))) now) [])
               (filter (\<lambda>(key, indicator). expired now indicator) entries))"

definition typingState :: ChatManager where
  "typingState =
     fst (startTyping 4000
            (fst (startTyping 1000
                    (fst (createSession ''s3'' aliceBobInGeneral ''u9'' ''Ghost'' 3 False))
                    ''s3'' ''general''))
            ''s2'' ''general'')"

subsection \<open>MessageStore: index consistency, bounded histories\<close>

definition roomHistory :: "MessageStore \<Rightarrow> string \<Rightarrow> Message list" where
  "roomHistory st roomId = (case map_of (ms_messages st) roomId of None \<Rightarrow> [] | Some h \<Rightarrow> h)"

definition store_inv :: "MessageStore \<Rightarrow> bool" where
  "store_inv st \<longleftrightarrow>
     distinct (map fst (ms_messages st)) \<and>
     distinct (map fst (ms_messageIndex st)) \<and>
     (\<forall>(roomId, history) \<in> set (ms_messages st).
        distinct (map msg_id history) \<and>
        (\<forall>m \<in> set history. msg_roomId m = roomId \<and> map_of (ms_messageIndex st) (msg_id m) = Some m)) \<and>
     (\<forall>(messageId, m) \<in> set (ms_messageIndex st).
        msg_id m = messageId \<and> m \<in> set (roomHistory st (msg_roomId m)))"

definition hist_ok :: "(string \<rightharpoonup> Message list) \<Rightarrow> (string \<rightharpoonup> Message) \<Rightarrow> bool" where
  "hist_ok M I \<longleftrightarrow>
     (\<forall>r h. M r = Some h \<longrightarrow>
        distinct (map msg_id h) \<and> (\<forall>m \<in> set h. msg_roomId m = r \<and> I (msg_id m) = Some m))"

definition index_ok :: "(string \<rightharpoonup> Message list) \<Rightarrow> (string \<rightharpoonup> Message) \<Rightarrow> bool" where
  "index_ok M I \<longleftrightarrow>
     (\<forall>i m. I i = Some m \<longrightarrow> msg_id m = i \<and> (\<exists>h. M (msg_roomId m) = Some h \<and> m \<in> set h))"

definition evictIndex :: "(string \<rightharpoonup> Message) \<Rightarrow> Message list \<Rightarrow> (string \<rightharpoonup> Message)" where
  "evictIndex I ms = (\<lambda>i. if i \<in> msg_id ` set ms then None else I i)"

text \<open>
  The store inside \<^verbatim>\<open>addMessage\<close> right before it calls \<^verbatim>\<open>cleanupOldMessages\<close>: the new
  message is pushed on its room's history and entered in the index.
\<close>

definition pushed :: "string \<Rightarrow> Date \<Rightarrow> MessageStore \<Rightarrow> string \<Rightarrow> string \<Rightarrow> string \<Rightarrow> MessageType
    \<Rightarrow> string option \<Rightarrow> MessageStore" where
  "pushed uuid now st roomId userId content type replyTo =
     \<lparr>ms_messages =
        AList.update roomId
          (roomHistory st roomId @
             [\<lparr>msg_id = uuid, msg_roomId = roomId, msg_userId = userId, msg_content = content,
               msg_type = type, msg_timestamp = now, msg_replyTo = replyTo,
               msg_reactions = [], msg_edited = None\<rparr>])
          (ms_messages st),
      ms_messageIndex =
        AList.update uuid
          \<lparr>msg_id = uuid, msg_roomId = roomId, msg_userId = userId, msg_content = content,
            msg_type = type, msg_timestamp = now, msg_replyTo = replyTo,
            msg_reactions = [], msg_edited = None\<rparr>
          (ms_messageIndex st)\<rparr>"

record NewMessage =
  nm_uuid :: string
  nm_now :: Date
  nm_roomId :: string
  nm_userId :: string
  nm_content :: string
  nm_type :: MessageType
  nm_replyTo :: "string option"

definition mkMessage :: "NewMessage \<Rightarrow> Message" where
  "mkMessage x =
     \<lparr>msg_id = nm_uuid x, msg_roomId = nm_roomId x, msg_userId = nm_userId x,
      msg_content = nm_content x, msg_type = nm_type x, msg_timestamp = nm_now x,
      msg_replyTo = nm_replyTo x, msg_reactions = [], msg_edited = None\<rparr>"

fun addMessages :: "MessageStore \<Rightarrow> NewMessage list \<Rightarrow> MessageStore" where
  "addMessages st [] = st"
| "addMessages st (x # xs) =
     addMessages
       (fst (addMessage (nm_uuid x) (nm_now x) st (nm_roomId x) (nm_userId x) (nm_content x)
               (nm_type x) (nm_replyTo x)))
       xs"

definition chatHistoryBounded :: "ChatManager \<Rightarrow> bool" where
  "chatHistoryBounded st \<longleftrightarrow> (\<forall>(roomId, room) \<in> set (chat_rooms st). length (cr_messages room) \<le> 100)"

definition oneMessage :: MessageStore where
  "oneMessage = fst (addMessage ''m1'' 0 newMessageStore ''general'' ''u1'' ''hello'' TextMessage None)"

definition manyMessages :: "NewMessage list" where
  "manyMessages =
     map (\<lambda>n. \<lparr>nm_uuid = replicate (Suc n) CHR ''m'', nm_now = int n, nm_roomId = ''general'',
                nm_userId = ''u1'', nm_content = ''hello'', nm_type = TextMessage,
                nm_replyTo = None\<rparr>) [0..<1001]"

subsection \<open>Reference states of RoomManager and SessionManager\<close>

definition devRoomCreated :: RoomManager where
  "devRoomCreated = fst (createRoom ''r1'' 1 (newRoomManager 0) ''Dev'' ''Developers'' ''u1'' False)"

definition bobLeft :: SessionManager where
  "bobLeft =
     (let (st1, bob) = SessionManager_createUser ''u1'' 0 newSessionManager ''Bob'' False;
          (st2, sessionId) = SessionManager_createSession ''s1'' st1 bob
      in SessionManager_removeSession 1 st2 sessionId)"

subsection \<open>MessageStore: evicted messages and histories of operations\<close>

text \<open>
  The messages that one call of \<^verbatim>\<open>cleanupOldMessages\<close> removes: the value of its variable
  \<^verbatim>\<open>toRemove\<close>, empty when the call does nothing.
\<close>

definition evictedMessages :: "MessageStore \<Rightarrow> string \<Rightarrow> nat \<Rightarrow> Message list" where
  "evictedMessages st roomId maxMessages =
     (case map_of (ms_messages st) roomId of
        None \<Rightarrow> []
      | Some roomMessages \<Rightarrow>
          if length roomMessages > maxMessages
          then take (length roomMessages - maxMessages) roomMessages else [])"

text \<open>
  Histories of store operations. \<open>addedIds\<close> lists the ids handed to \<^verbatim>\<open>addMessage\<close>,
  \<open>deletedIds\<close> the ids for which \<^verbatim>\<open>deleteMessage\<close> reported success, and \<open>evictedIds\<close> the
  ids of the messages removed by the \<^verbatim>\<open>cleanupOldMessages\<close> call inside \<^verbatim>\<open>addMessage\<close>, each
  taken in the state in which the operation ran.
\<close>

datatype StoreOp = AddOp NewMessage | DeleteOp string string bool

fun applyOp :: "MessageStore \<Rightarrow> StoreOp \<Rightarrow> MessageStore" where
  "applyOp st (AddOp x) =
     fst (addMessage (nm_uuid x) (nm_now x) st (nm_roomId x) (nm_userId x) (nm_content x)
            (nm_type x) (nm_replyTo x))"
| "applyOp st (DeleteOp messageId userId isModeratorAction) =
     fst (deleteMessage st messageId userId isModeratorAction)"

fun runOps :: "MessageStore \<Rightarrow> StoreOp list \<Rightarrow> MessageStore" where
  "runOps st [] = st"
| "runOps st (opn # ops) = runOps (applyOp st opn) ops"

fun addedBy :: "StoreOp \<Rightarrow> string list" where
  "addedBy (AddOp x) = [nm_uuid x]"
| "addedBy (DeleteOp messageId userId isModeratorAction) = []"

fun deletedBy :: "MessageStore \<Rightarrow> StoreOp \<Rightarrow> string list" where
  "deletedBy st (AddOp x) = []"
| "deletedBy st (DeleteOp messageId userId isModeratorAction) =
     (if success (snd (deleteMessage st messageId userId isModeratorAction)) then [messageId] else [])"

fun evictedBy :: "MessageStore \<Rightarrow> StoreOp \<Rightarrow> string list" where
  "evictedBy st (AddOp x) =
     map msg_id
       (evictedMessages
          (pushed (nm_uuid x) (nm_now x) st (nm_roomId x) (nm_userId x) (nm_content x)
             (nm_type x) (nm_replyTo x))
          (nm_roomId x) defaultMaxMessages)"
| "evictedBy st (DeleteOp messageId userId isModeratorAction) = []"

fun addedIds :: "StoreOp list \<Rightarrow> string list" where
  "addedIds [] = []"
| "addedIds (opn # ops) = addedBy opn @ addedIds ops"

fun deletedIds :: "MessageStore \<Rightarrow> StoreOp list \<Rightarrow> string list" where
  "deletedIds st [] = []"
| "deletedIds st (opn # ops) = deletedBy st opn @ deletedIds (applyOp st opn) ops"

fun evictedIds :: "MessageStore \<Rightarrow> StoreOp list \<Rightarrow> string list" where
  "evictedIds st [] = []"
| "evictedIds st (opn # ops) = evictedBy st opn @ evictedIds (applyOp st opn) ops"

definition twoMessages :: MessageStore where
  "twoMessages = fst (addMessage ''m2'' 1 oneMessage ''general'' ''u2'' ''hi'' TextMessage None)"

definition smallTrace :: "StoreOp list" where
  "smallTrace =
     [AddOp \<lparr>nm_uuid = ''m1'', nm_now = 0, nm_roomId = ''general'', nm_userId = ''u1'',
             nm_content = ''hello'', nm_type = TextMessage, nm_replyTo = None\<rparr>,
      AddOp \<lparr>nm_uuid = ''m2'', nm_now = 1, nm_roomId = ''general'', nm_userId = ''u2'',
             nm_content = ''hi'', nm_type = TextMessage, nm_replyTo = None\<rparr>,
      DeleteOp ''m1'' ''u1'' False]"

section \<open>Verified properties\<close>

subsection \<open>ChatManager: the membership invariant\<close>








lemma leaveRoom_noop:
  assumes "map_of (chat_sessions st) sid = None \<or> map_of (chat_rooms st) rid = None"
  shows "leaveRoom now st sid rid = (st, [])"
  using assms unfolding leaveRoom_def by (auto split: option.splits)

lemma leaveRoom_Some:
  assumes "map_of (chat_sessions st) sid = Some session" "map_of (chat_rooms st) rid = Some room"
  shows "leaveRoom now st sid rid =
           (leftState st sid rid session room,
            broadcastToRoom (leftState st sid rid session room) rid (Envelope (UserLeft (cs_username session)) now) []
              @ broadcastRoomUsers now (leftState st sid rid session room) rid)"
  unfolding leaveRoom_def leftState_def set_delete_def Let_def
  by (simp only: assms option.case)





lemma set_set_add: "set (set_add x xs) = insert x (set xs)"
  by (auto simp: set_add_def)


lemma joinRoom_Some:
  assumes "map_of (chat_sessions st) sid = Some session0" "map_of (chat_rooms st) rid = Some room0"
  shows "joinRoom now st sid rid =
     (let st1out = (if truthy (cs_currentRoom session0)
                     then leaveRoom now st sid (the (cs_currentRoom session0))
                     else (st, []));
          st1 = fst st1out;
          session = (case map_of (chat_sessions st1) sid of Some s \<Rightarrow> s | None \<Rightarrow> session0);
          room = (case map_of (chat_rooms st1) rid of Some r \<Rightarrow> r | None \<Rightarrow> room0);
          st2 = joinedState st1 sid rid session room
      in (True, st2,
           snd st1out @ broadcastToRoom st2 rid (Envelope (UserJoined (cs_username session)) now) []
                       @ broadcastRoomUsers now st2 rid))"
  unfolding joinRoom_def joinedState_def Let_def split_def
  by (simp only: assms option.case)


lemma leftState_lookup:
  "map_of (chat_sessions (leftState st sid rid session room)) sid = Some (session\<lparr>cs_currentRoom := None\<rparr>)"
  "map_of (chat_rooms (leftState st sid rid session room)) r =
      (if r = rid then Some (room\<lparr>cr_users := removeAll (cs_userId session) (cr_users room)\<rparr>)
       else map_of (chat_rooms st) r)"
  unfolding leftState_def by (simp_all add: update_conv')











subsection \<open>ChatManager: broadcasts, leave and join, typing indicators\<close>

lemma broadcastToRoom_no_room:
  "map_of (chat_rooms st) rid = None \<Longrightarrow> broadcastToRoom st rid e ex = []"
  by (simp add: broadcastToRoom_def)

lemma broadcastToRoom_eq:
  assumes "map_of (chat_rooms st) rid = Some room"
  shows "broadcastToRoom st rid e ex =
           map (\<lambda>k. (k, e)) (filter (\<lambda>k. k \<notin> set ex) (sessionsInRoom st rid))"
proof -
  have "map (\<lambda>(k, s). (k, e)) (filter (\<lambda>(k, s). cs_currentRoom s = Some rid \<and> k \<notin> set ex) xs) =
        map (\<lambda>k. (k, e)) (filter (\<lambda>k. k \<notin> set ex)
           (map fst (filter (\<lambda>(k, s). cs_currentRoom s = Some rid) xs)))" for xs :: "(string \<times> ChatSession) list"
    by (induction xs) auto
  then show ?thesis using assms by (simp add: broadcastToRoom_def sessionsInRoom_def)
qed

lemma broadcastRoomUsers_eq:
  assumes "map_of (chat_rooms st) rid = Some room"
  shows "broadcastRoomUsers now st rid =
           broadcastToRoom st rid (Envelope (RoomUsers rid (roomUserList st (cr_users room))) now) []"
  using assms by (simp add: broadcastRoomUsers_def roomUserList_def)

lemma broadcastToRoom_cong:
  assumes "chat_rooms st' = chat_rooms st" "chat_sessions st' = chat_sessions st"
  shows "broadcastToRoom st' rid e ex = broadcastToRoom st rid e ex"
  unfolding broadcastToRoom_def by (simp only: assms)

lemma sessionsInRoom_mem:
  "k \<in> set (sessionsInRoom st rid) \<longleftrightarrow>
     (\<exists>s. (k, s) \<in> set (chat_sessions st) \<and> cs_currentRoom s = Some rid)"
  by (force simp: sessionsInRoom_def)

lemma leftState_twice:
  "leftState (leftState st sid rid session room) sid rid (session\<lparr>cs_currentRoom := None\<rparr>)
      (room\<lparr>cr_users := removeAll (cs_userId session) (cr_users room)\<rparr>) =
   leftState st sid rid session room"
  unfolding leftState_def by simp

lemma leaveRoom_again_state:
  "fst (leaveRoom now' (fst (leaveRoom now st sid rid)) sid rid) = fst (leaveRoom now st sid rid)"
proof (cases "map_of (chat_sessions st) sid = None \<or> map_of (chat_rooms st) rid = None")
  case True
  then show ?thesis by (simp add: leaveRoom_noop)
next
  case False
  then obtain session room where
    sess: "map_of (chat_sessions st) sid = Some session" and room: "map_of (chat_rooms st) rid = Some room"
    by auto
  let ?st1 = "leftState st sid rid session room"
  have s1: "map_of (chat_sessions ?st1) sid = Some (session\<lparr>cs_currentRoom := None\<rparr>)"
    by (rule leftState_lookup)
  have r1: "map_of (chat_rooms ?st1) rid = Some (room\<lparr>cr_users := removeAll (cs_userId session) (cr_users room)\<rparr>)"
    by (simp add: leftState_lookup)
  show ?thesis
    unfolding leaveRoom_Some[OF sess room] fst_conv leaveRoom_Some[OF s1 r1] leftState_twice ..
qed

text \<open>
  C4 (amended). \<^verbatim>\<open>leaveRoom\<close> never fails: for an unknown session or an unknown room it
  returns at once, changing nothing and sending nothing. A second \<^verbatim>\<open>leaveRoom(s, R)\<close>
  right after the first leaves the registry exactly as the first call left it, but it is
  not silent: it sends the \<^verbatim>\<open>user_left\<close> notice and the member list of \<open>R\<close> once more to
  every session still in \<open>R\<close>. It sends nothing only when no session remains in \<open>R\<close>.
\<close>

theorem leaveRoom_twice:
  "((map_of (chat_sessions st) sid = None \<or> map_of (chat_rooms st) rid = None) \<longrightarrow>
       leaveRoom now st sid rid = (st, [])) \<and>
   fst (leaveRoom now' (fst (leaveRoom now st sid rid)) sid rid) = fst (leaveRoom now st sid rid) \<and>
   snd (leaveRoom now' (fst (leaveRoom now st sid rid)) sid rid) =
     (case map_of (chat_sessions st) sid of
        None \<Rightarrow> []
      | Some session \<Rightarrow>
         (case map_of (chat_rooms st) rid of
            None \<Rightarrow> []
          | Some room \<Rightarrow>
              map (\<lambda>k. (k, Envelope (UserLeft (cs_username session)) now'))
                (sessionsInRoom (fst (leaveRoom now st sid rid)) rid) @
              map (\<lambda>k. (k, Envelope (RoomUsers rid
                                (roomUserList st (removeAll (cs_userId session) (cr_users room)))) now'))
                (sessionsInRoom (fst (leaveRoom now st sid rid)) rid)))"
proof (cases "map_of (chat_sessions st) sid = None \<or> map_of (chat_rooms st) rid = None")
  case True
  then show ?thesis by (auto simp: leaveRoom_noop split: option.splits)
next
  case False
  then obtain session room where
    sess: "map_of (chat_sessions st) sid = Some session" and room: "map_of (chat_rooms st) rid = Some room"
    by auto
  let ?st1 = "leftState st sid rid session room"
  let ?room1 = "room\<lparr>cr_users := removeAll (cs_userId session) (cr_users room)\<rparr>"
  have st1: "fst (leaveRoom now st sid rid) = ?st1" by (simp add: leaveRoom_Some[OF sess room])
  have s1: "map_of (chat_sessions ?st1) sid = Some (session\<lparr>cs_currentRoom := None\<rparr>)"
    by (rule leftState_lookup)
  have r1: "map_of (chat_rooms ?st1) rid = Some ?room1"
    by (simp add: leftState_lookup)
  have u: "roomUserList ?st1 xs = roomUserList st xs" for xs
    by (simp add: roomUserList_def leftState_def)
  have out: "snd (leaveRoom now' ?st1 sid rid) =
               broadcastToRoom ?st1 rid (Envelope (UserLeft (cs_username session)) now') [] @
               broadcastRoomUsers now' ?st1 rid"
    unfolding leaveRoom_Some[OF s1 r1] leftState_twice by simp
  have "snd (leaveRoom now' ?st1 sid rid) =
          map (\<lambda>k. (k, Envelope (UserLeft (cs_username session)) now')) (sessionsInRoom ?st1 rid) @
          map (\<lambda>k. (k, Envelope (RoomUsers rid
                            (roomUserList st (removeAll (cs_userId session) (cr_users room)))) now'))
            (sessionsInRoom ?st1 rid)"
    unfolding out broadcastRoomUsers_eq[OF r1] broadcastToRoom_eq[OF r1] u by simp
  then show ?thesis
    using sess room leaveRoom_again_state[of now' now st sid rid] by (simp add: st1)
qed

theorem leaveRoom_twice_witness:
  "fst (leaveRoom 6 (fst (leaveRoom 5 aliceBobInGeneral ''s1'' ''general'')) ''s1'' ''general'') =
     fst (leaveRoom 5 aliceBobInGeneral ''s1'' ''general'') \<and>
   leaveRoom 5 aliceBobInGeneral ''s9'' ''general'' = (aliceBobInGeneral, [])"
proof -
  have "map_of (chat_sessions aliceBobInGeneral) ''s9'' = None" by code_simp
  then show ?thesis
    using leaveRoom_twice[of aliceBobInGeneral "''s9''" "''general''" 5 6]
      leaveRoom_twice[of aliceBobInGeneral "''s1''" "''general''" 5 6]
    by blast
qed

theorem leaveRoom_twice_counterexample:
  "snd (leaveRoom 6 (fst (leaveRoom 5 aliceBobInGeneral ''s1'' ''general'')) ''s1'' ''general'') =
     [(''s2'', Envelope (UserLeft ''Alice'') 6),
      (''s2'', Envelope (RoomUsers ''general'' [(''u2'', ''Bob'', True)]) 6)]"
  by code_simp

lemma broadcastToRoom_typing:
  "broadcastToRoom (st\<lparr>chat_typingIndicators := t\<rparr>) rid e ex = broadcastToRoom st rid e ex"
  by (simp add: broadcastToRoom_def cong: option.case_cong)

lemma getUsernameById_typing:
  "getUsernameById (st\<lparr>chat_typingIndicators := t\<rparr>) u = getUsernameById st u"
  by (simp add: getUsernameById_def)

lemma typingCleanupLoop_eq:
  "typingCleanupLoop now es (st\<lparr>chat_typingIndicators := t\<rparr>, out) =
     (st\<lparr>chat_typingIndicators :=
            fold (\<lambda>(key, indicator) al. if expired now indicator then AList.delete key al else al) es t\<rparr>,
      out @ typingStopNotices now st es)"
proof (induction es arbitrary: t out)
  case Nil
  then show ?case by (simp add: typingStopNotices_def)
next
  case (Cons e es)
  obtain key indicator where e: "e = (key, indicator)" by (cases e)
  show ?case
  proof (cases "expired now indicator")
    case True
    then have "now - ti_timestamp indicator > typingTimeoutMs" by (simp add: expired_def)
    then show ?thesis
      unfolding e using Cons.IH[of "AList.delete key t"] True
      by (simp add: Let_def broadcastToRoom_typing getUsernameById_typing typingStopNotices_def)
  next
    case False
    then have "\<not> now - ti_timestamp indicator > typingTimeoutMs" by (simp add: expired_def)
    then show ?thesis
      unfolding e using Cons.IH[of t] False
      by (simp add: typingStopNotices_def)
  qed
qed

lemma delete_filter: "AList.delete k al = filter (\<lambda>(k', v). k' \<noteq> k) al"
  by (induction al) auto

lemma fold_delete_filter:
  "fold (\<lambda>(key, indicator) al. if P indicator then AList.delete key al else al) es t =
     filter (\<lambda>(k, v). k \<notin> fst ` {e \<in> set es. P (snd e)}) t"
proof (induction es arbitrary: t)
  case Nil
  then show ?case by simp
next
  case (Cons e es)
  obtain key indicator where e: "e = (key, indicator)" by (cases e)
  show ?case
  proof (cases "P indicator")
    case True
    have "fst ` {x \<in> set ((key, indicator) # es). P (snd x)} =
            insert key (fst ` {x \<in> set es. P (snd x)})"
      using True by force
    then show ?thesis
      unfolding e using True by (auto simp: Cons.IH delete_filter intro!: filter_cong)
  next
    case False
    have "fst ` {x \<in> set ((key, indicator) # es). P (snd x)} = fst ` {x \<in> set es. P (snd x)}"
      using False by auto
    then show ?thesis
      unfolding e using False by (simp add: Cons.IH)
  qed
qed

lemma sweep_filter:
  assumes "distinct (map fst t)"
  shows "filter (\<lambda>(k, v). k \<notin> fst ` {e \<in> set t. P (snd e)}) t = filter (\<lambda>(k, v). \<not> P v) t"
proof (rule filter_cong[OF refl])
  fix x assume x: "x \<in> set t"
  obtain k v where kv: "x = (k, v)" by (cases x)
  have "k \<in> fst ` {e \<in> set t. P (snd e)} \<longleftrightarrow> P v"
  proof
    assume "k \<in> fst ` {e \<in> set t. P (snd e)}"
    then obtain v' where "(k, v') \<in> set t" "P v'" by auto
    with assms x kv have "v' = v" by (metis eq_key_imp_eq_value)
    with \<open>P v'\<close> show "P v" by simp
  next
    assume "P v"
    with x kv show "k \<in> fst ` {e \<in> set t. P (snd e)}" by force
  qed
  then show "(case x of (k, v) \<Rightarrow> k \<notin> fst ` {e \<in> set t. P (snd e)}) = (case x of (k, v) \<Rightarrow> \<not> P v)"
    by (simp add: kv)
qed

lemma typingCleanupTick_eq:
  assumes "distinct (map fst (chat_typingIndicators st))"
  shows "typingCleanupTick now st =
     (st\<lparr>chat_typingIndicators :=
            filter (\<lambda>(key, indicator). \<not> expired now indicator) (chat_typingIndicators st)\<rparr>,
      typingStopNotices now st (chat_typingIndicators st))"
proof -
  have "typingCleanupTick now st =
          typingCleanupLoop now (chat_typingIndicators st)
            (st\<lparr>chat_typingIndicators := chat_typingIndicators st\<rparr>, [])"
    by (simp add: typingCleanupTick_def)
  then show ?thesis
    unfolding typingCleanupLoop_eq fold_delete_filter sweep_filter[OF assms] by simp
qed

text \<open>
  C5 (amended). For a known session \<open>s\<close> and an existing room \<open>R\<close>, \<^verbatim>\<open>startTyping(s, R)\<close>
  sends the \<^verbatim>\<open>typing_start\<close> envelope to every session whose current room is \<open>R\<close> except
  \<open>s\<close>, and an explicit \<^verbatim>\<open>stopTyping(s, R)\<close> sends the \<^verbatim>\<open>typing_stop\<close> envelope to the same
  sessions: it excludes the originator too. Only the sweeper's \<^verbatim>\<open>typing_stop\<close> for an
  expired indicator goes to every session whose current room is the indicator's room,
  with no exclusion.
\<close>

theorem typing_broadcast_scope:
  assumes "map_of (chat_sessions st) sid = Some session"
    and "map_of (chat_rooms st) rid = Some room"
  shows "snd (startTyping now st sid rid) =
           map (\<lambda>k. (k, Envelope (TypingStart (cs_username session)) now))
             (filter (\<lambda>k. k \<noteq> sid) (sessionsInRoom st rid)) \<and>
         snd (stopTyping now st sid rid) =
           map (\<lambda>k. (k, Envelope (TypingStop (cs_username session)) now))
             (filter (\<lambda>k. k \<noteq> sid) (sessionsInRoom st rid)) \<and>
         snd (typingCleanupTick now st) =
           concat (map (\<lambda>(key, indicator).
                          if map_of (chat_rooms st) (ti_roomId indicator) = None then []
                          else map (\<lambda>k. (k, Envelope (TypingStop (getUsernameById st (ti_userId indicator))) now))
                                 (sessionsInRoom st (ti_roomId indicator)))
                     (filter (\<lambda>(key, indicator). now - ti_timestamp indicator > 5000)
                        (chat_typingIndicators st)))"
proof -
  have sessions_typing: "sessionsInRoom (st\<lparr>chat_typingIndicators := t\<rparr>) rid = sessionsInRoom st rid" for t
    by (simp add: sessionsInRoom_def)
  have room': "map_of (chat_rooms (st\<lparr>chat_typingIndicators := t\<rparr>)) rid = Some room" for t
    using assms(2) by simp
  have start: "snd (startTyping now st sid rid) =
           map (\<lambda>k. (k, Envelope (TypingStart (cs_username session)) now))
             (filter (\<lambda>k. k \<noteq> sid) (sessionsInRoom st rid))"
    unfolding startTyping_def Let_def
    by (simp only: assms(1) option.case snd_conv broadcastToRoom_eq[OF room'] sessions_typing) simp
  have stop: "snd (stopTyping now st sid rid) =
           map (\<lambda>k. (k, Envelope (TypingStop (cs_username session)) now))
             (filter (\<lambda>k. k \<noteq> sid) (sessionsInRoom st rid))"
    unfolding stopTyping_def Let_def
    by (simp only: assms(1) option.case snd_conv broadcastToRoom_eq[OF room'] sessions_typing) simp
  have b: "broadcastToRoom st r e [] =
             (if map_of (chat_rooms st) r = None then [] else map (\<lambda>k. (k, e)) (sessionsInRoom st r))" for r e
    by (cases "map_of (chat_rooms st) r") (simp_all add: broadcastToRoom_no_room broadcastToRoom_eq)
  have "typingCleanupTick now st =
          typingCleanupLoop now (chat_typingIndicators st)
            (st\<lparr>chat_typingIndicators := chat_typingIndicators st\<rparr>, [])"
    by (simp add: typingCleanupTick_def)
  then have "snd (typingCleanupTick now st) = typingStopNotices now st (chat_typingIndicators st)"
    unfolding typingCleanupLoop_eq by simp
  then have sweep: "snd (typingCleanupTick now st) =
           concat (map (\<lambda>(key, indicator).
                          if map_of (chat_rooms st) (ti_roomId indicator) = None then []
                          else map (\<lambda>k. (k, Envelope (TypingStop (getUsernameById st (ti_userId indicator))) now))
                                 (sessionsInRoom st (ti_roomId indicator)))
                     (filter (\<lambda>(key, indicator). now - ti_timestamp indicator > 5000)
                        (chat_typingIndicators st)))"
    unfolding typingStopNotices_def b expired_def typingTimeoutMs_def by simp
  show ?thesis using start stop sweep by (intro conjI)
qed

theorem typing_broadcast_scope_witness:
  "snd (startTyping 5 aliceBobInGeneral ''s1'' ''general'') =
     map (\<lambda>k. (k, Envelope (TypingStart ''Alice'') 5))
       (filter (\<lambda>k. k \<noteq> ''s1'') (sessionsInRoom aliceBobInGeneral ''general'')) \<and>
   snd (stopTyping 5 aliceBobInGeneral ''s1'' ''general'') =
     map (\<lambda>k. (k, Envelope (TypingStop ''Alice'') 5))
       (filter (\<lambda>k. k \<noteq> ''s1'') (sessionsInRoom aliceBobInGeneral ''general''))"
proof -
  have h1: "map_of (chat_sessions aliceBobInGeneral) ''s1'' =
              Some \<lparr>cs_id = ''s1'', cs_userId = ''u1'', cs_username = ''Alice'', cs_ws = 1,
                     cs_currentRoom = Some ''general'', cs_isGuest = False\<rparr>"
    by code_simp
  have h2: "map_of (chat_rooms aliceBobInGeneral) ''general'' =
              Some \<lparr>cr_id = ''general'', cr_name = ''General'',
                     cr_description = ''General discussion for everyone'', cr_isPrivate = False,
                     cr_users = [''u1'', ''u2''], cr_messages = [], cr_createdAt = 0\<rparr>"
    by code_simp
  show ?thesis using typing_broadcast_scope[OF h1 h2, of 5] by simp
qed

theorem typing_broadcast_scope_counterexample:
  "sessionsInRoom aliceBobInGeneral ''general'' = [''s1'', ''s2''] \<and>
   snd (stopTyping 5 aliceBobInGeneral ''s1'' ''general'') = [(''s2'', Envelope (TypingStop ''Alice'') 5)]"
  by code_simp

text \<open>
  C7. The sweeper runs every 1000 ms. One run removes from the indicator map exactly the
  entries older than 5000 ms (the keys of a \<^verbatim>\<open>Map\<close> are unique), touches nothing else, and
  for each removed entry, in order, broadcasts a \<^verbatim>\<open>typing_stop\<close> to the entry's room,
  unfiltered. The username in the notice is the user's, or the placeholder
  \<^verbatim>\<open>Unknown\<close> when the user id is not in the user map; no case fails.
\<close>

theorem sweeper_expiry:
  assumes "distinct (map fst (chat_typingIndicators st))"
  shows "typingCleanupIntervalMs = 1000 \<and>
         chat_typingIndicators (fst (typingCleanupTick now st)) =
           filter (\<lambda>(key, indicator). \<not> now - ti_timestamp indicator > 5000) (chat_typingIndicators st) \<and>
         chat_rooms (fst (typingCleanupTick now st)) = chat_rooms st \<and>
         chat_users (fst (typingCleanupTick now st)) = chat_users st \<and>
         chat_sessions (fst (typingCleanupTick now st)) = chat_sessions st \<and>
         snd (typingCleanupTick now st) =
           concat (map (\<lambda>(key, indicator).
                          broadcastToRoom st (ti_roomId indicator)
                            (Envelope (TypingStop
                               (case map_of (chat_users st) (ti_userId indicator) of
                                  Some user \<Rightarrow> cu_username user
                                | None \<Rightarrow> ''Unknown'')) now) [])
                     (filter (\<lambda>(key, indicator). now - ti_timestamp indicator > 5000)
                        (chat_typingIndicators st)))"
  unfolding typingCleanupTick_eq[OF assms] typingStopNotices_def expired_def typingTimeoutMs_def
    typingCleanupIntervalMs_def getUsernameById_def
  by simp

theorem sweeper_expiry_witness:
  "distinct (map fst (chat_typingIndicators typingState)) \<and>
   map fst (chat_typingIndicators typingState) = [''u9-general'', ''u2-general''] \<and>
   map fst (chat_typingIndicators (fst (typingCleanupTick 6500 typingState))) = [''u2-general''] \<and>
   snd (typingCleanupTick 6500 typingState) =
     [(''s1'', Envelope (TypingStop ''Unknown'') 6500),
      (''s2'', Envelope (TypingStop ''Unknown'') 6500)]"
proof -
  have h: "distinct (map fst (chat_typingIndicators typingState))" by code_simp
  have v: "chat_typingIndicators typingState =
             [(''u9-general'', \<lparr>ti_userId = ''u9'', ti_roomId = ''general'', ti_timestamp = 1000\<rparr>),
              (''u2-general'', \<lparr>ti_userId = ''u2'', ti_roomId = ''general'', ti_timestamp = 4000\<rparr>)]"
    by code_simp
  have b: "broadcastToRoom typingState ''general'' (Envelope (TypingStop ''Unknown'') 6500) [] =
             [(''s1'', Envelope (TypingStop ''Unknown'') 6500),
              (''s2'', Envelope (TypingStop ''Unknown'') 6500)]"
    by code_simp
  have u: "map_of (chat_users typingState) ''u9'' = None" by code_simp
  show ?thesis using sweeper_expiry[OF h, of 6500] h b u by (simp add: v)
qed

lemma roomUserList_leftState [simp]:
  "roomUserList (leftState st sid rid session room) xs = roomUserList st xs"
  by (simp add: roomUserList_def leftState_def)

lemma roomUserList_joinedState [simp]:
  "roomUserList (joinedState st sid rid session room) xs = roomUserList st xs"
  by (simp add: roomUserList_def joinedState_def)

lemma joinedState_lookup:
  "map_of (chat_sessions (joinedState st sid rid session room)) sid = Some (session\<lparr>cs_currentRoom := Some rid\<rparr>)"
  "map_of (chat_rooms (joinedState st sid rid session room)) r =
      (if r = rid then Some (room\<lparr>cr_users := set_add (cs_userId session) (cr_users room)\<rparr>)
       else map_of (chat_rooms st) r)"
  unfolding joinedState_def by (simp_all add: update_conv')

lemma leaveRoom_out:
  assumes sess: "map_of (chat_sessions st) sid = Some session"
    and room: "map_of (chat_rooms st) rid = Some room"
  shows "leaveRoom now st sid rid =
     (leftState st sid rid session room,
      map (\<lambda>k. (k, Envelope (UserLeft (cs_username session)) now))
        (sessionsInRoom (leftState st sid rid session room) rid) @
      map (\<lambda>k. (k, Envelope (RoomUsers rid (roomUserList st (removeAll (cs_userId session) (cr_users room)))) now))
        (sessionsInRoom (leftState st sid rid session room) rid))"
proof -
  let ?st1 = "leftState st sid rid session room"
  have r1: "map_of (chat_rooms ?st1) rid = Some (room\<lparr>cr_users := removeAll (cs_userId session) (cr_users room)\<rparr>)"
    by (simp add: leftState_lookup)
  show ?thesis
    unfolding leaveRoom_Some[OF sess room] broadcastRoomUsers_eq[OF r1] broadcastToRoom_eq[OF r1]
    by simp
qed

lemma joinRoom_out:
  assumes sess: "map_of (chat_sessions st) sid = Some session0"
    and room: "map_of (chat_rooms st) rid = Some room0"
    and l: "(if truthy (cs_currentRoom session0)
             then leaveRoom now st sid (the (cs_currentRoom session0)) else (st, [])) = (st1, out1)"
    and s1: "map_of (chat_sessions st1) sid = Some session"
    and r1: "map_of (chat_rooms st1) rid = Some room1"
    and u1: "chat_users st1 = chat_users st"
  shows "joinRoom now st sid rid =
     (True, joinedState st1 sid rid session room1,
      out1 @
      map (\<lambda>k. (k, Envelope (UserJoined (cs_username session)) now))
        (sessionsInRoom (joinedState st1 sid rid session room1) rid) @
      map (\<lambda>k. (k, Envelope (RoomUsers rid (roomUserList st (set_add (cs_userId session) (cr_users room1)))) now))
        (sessionsInRoom (joinedState st1 sid rid session room1) rid))"
proof -
  let ?st2 = "joinedState st1 sid rid session room1"
  have r2: "map_of (chat_rooms ?st2) rid = Some (room1\<lparr>cr_users := set_add (cs_userId session) (cr_users room1)\<rparr>)"
    by (simp add: joinedState_lookup)
  have u: "roomUserList st1 xs = roomUserList st xs" for xs
    by (simp add: roomUserList_def u1)
  show ?thesis
    unfolding joinRoom_Some[OF sess room] l Let_def fst_conv snd_conv
    by (simp only: s1 r1 option.case broadcastRoomUsers_eq[OF r2] broadcastToRoom_eq[OF r2]
          roomUserList_joinedState u) simp
qed

lemma sessionsInRoom_not_self:
  assumes d: "distinct (map fst (chat_sessions st))"
    and s: "map_of (chat_sessions st) sid = Some session"
    and c: "cs_currentRoom session \<noteq> Some rid"
  shows "sid \<notin> set (sessionsInRoom st rid)"
proof
  assume "sid \<in> set (sessionsInRoom st rid)"
  then obtain s' where s': "(sid, s') \<in> set (chat_sessions st)" "cs_currentRoom s' = Some rid"
    unfolding sessionsInRoom_mem by blast
  from d s'(1) have "map_of (chat_sessions st) sid = Some s'" by simp
  with s s'(2) c show False by simp
qed

lemma sessionsInRoom_self:
  assumes s: "map_of (chat_sessions st) sid = Some session"
    and c: "cs_currentRoom session = Some rid"
  shows "sid \<in> set (sessionsInRoom st rid)"
  unfolding sessionsInRoom_mem using map_of_SomeD[OF s] c by blast

text \<open>
  C6. When session \<open>s\<close> is in room \<open>A\<close> and joins another existing room \<open>B\<close>, \<^verbatim>\<open>joinRoom\<close>
  first performs exactly \<^verbatim>\<open>leaveRoom(s, A)\<close> and then the join of \<open>B\<close>: the deliveries are
  those of the leave, to the sessions left in \<open>A\<close> with a member list built after the
  user was removed, followed by the \<^verbatim>\<open>user_joined\<close> notice and the member list of \<open>B\<close>,
  built after the user was added. Afterwards the user is out of \<open>A\<close>'s member set, in
  \<open>B\<close>'s, and the session's current room is \<open>B\<close>; \<open>s\<close> is not among the receivers of the
  broadcasts to \<open>A\<close> and is among those of the broadcasts to \<open>B\<close>.
\<close>

theorem room_switch_ordering:
  assumes sess: "map_of (chat_sessions st) sid = Some session"
    and cur: "cs_currentRoom session = Some A" and ne: "A \<noteq> []" and ab: "B \<noteq> A"
    and roomA: "map_of (chat_rooms st) A = Some roomA"
    and roomB: "map_of (chat_rooms st) B = Some roomB"
  shows
    "leaveRoom now st sid A =
       (leftState st sid A session roomA,
        map (\<lambda>k. (k, Envelope (UserLeft (cs_username session)) now))
          (sessionsInRoom (leftState st sid A session roomA) A) @
        map (\<lambda>k. (k, Envelope (RoomUsers A
                          (roomUserList st (removeAll (cs_userId session) (cr_users roomA)))) now))
          (sessionsInRoom (leftState st sid A session roomA) A)) \<and>
     joinRoom now st sid B =
       (True,
        joinedState (leftState st sid A session roomA) sid B (session\<lparr>cs_currentRoom := None\<rparr>) roomB,
        snd (leaveRoom now st sid A) @
        map (\<lambda>k. (k, Envelope (UserJoined (cs_username session)) now))
          (sessionsInRoom
             (joinedState (leftState st sid A session roomA) sid B
                (session\<lparr>cs_currentRoom := None\<rparr>) roomB) B) @
        map (\<lambda>k. (k, Envelope (RoomUsers B
                          (roomUserList st (set_add (cs_userId session) (cr_users roomB)))) now))
          (sessionsInRoom
             (joinedState (leftState st sid A session roomA) sid B
                (session\<lparr>cs_currentRoom := None\<rparr>) roomB) B)) \<and>
     cs_userId session \<notin> set (removeAll (cs_userId session) (cr_users roomA)) \<and>
     cs_userId session \<in> set (set_add (cs_userId session) (cr_users roomB)) \<and>
     map_of (chat_sessions (fst (snd (joinRoom now st sid B)))) sid =
       Some (session\<lparr>cs_currentRoom := Some B\<rparr>) \<and>
     map_of (chat_rooms (fst (snd (joinRoom now st sid B)))) A =
       Some (roomA\<lparr>cr_users := removeAll (cs_userId session) (cr_users roomA)\<rparr>) \<and>
     map_of (chat_rooms (fst (snd (joinRoom now st sid B)))) B =
       Some (roomB\<lparr>cr_users := set_add (cs_userId session) (cr_users roomB)\<rparr>) \<and>
     sid \<in> set (sessionsInRoom (fst (snd (joinRoom now st sid B))) B) \<and>
     (distinct (map fst (chat_sessions st)) \<longrightarrow>
        sid \<notin> set (sessionsInRoom (leftState st sid A session roomA) A))"
proof -
  let ?stL = "leftState st sid A session roomA"
  let ?s1 = "session\<lparr>cs_currentRoom := None\<rparr>"
  let ?stJ = "joinedState ?stL sid B ?s1 roomB"
  have leave: "leaveRoom now st sid A =
       (?stL,
        map (\<lambda>k. (k, Envelope (UserLeft (cs_username session)) now)) (sessionsInRoom ?stL A) @
        map (\<lambda>k. (k, Envelope (RoomUsers A
                          (roomUserList st (removeAll (cs_userId session) (cr_users roomA)))) now))
          (sessionsInRoom ?stL A))"
    by (rule leaveRoom_out[OF sess roomA])
  have l: "(if truthy (cs_currentRoom session)
             then leaveRoom now st sid (the (cs_currentRoom session)) else (st, [])) =
           (?stL, snd (leaveRoom now st sid A))"
    using cur ne by (simp add: leaveRoom_Some[OF sess roomA])
  have s1: "map_of (chat_sessions ?stL) sid = Some ?s1" by (rule leftState_lookup)
  have r1: "map_of (chat_rooms ?stL) B = Some roomB" using ab roomB by (simp add: leftState_lookup)
  have u1: "chat_users ?stL = chat_users st" by (simp add: leftState_def)
  have join0: "joinRoom now st sid B =
       (True, ?stJ,
        snd (leaveRoom now st sid A) @
        map (\<lambda>k. (k, Envelope (UserJoined (cs_username ?s1)) now)) (sessionsInRoom ?stJ B) @
        map (\<lambda>k. (k, Envelope (RoomUsers B
                          (roomUserList st (set_add (cs_userId ?s1) (cr_users roomB)))) now))
          (sessionsInRoom ?stJ B))"
    by (rule joinRoom_out[OF sess roomB l s1 r1 u1])
  have stJ: "fst (snd (joinRoom now st sid B)) = ?stJ" by (simp add: join0)
  have join: "joinRoom now st sid B =
       (True, ?stJ,
        snd (leaveRoom now st sid A) @
        map (\<lambda>k. (k, Envelope (UserJoined (cs_username session)) now)) (sessionsInRoom ?stJ B) @
        map (\<lambda>k. (k, Envelope (RoomUsers B
                          (roomUserList st (set_add (cs_userId session) (cr_users roomB)))) now))
          (sessionsInRoom ?stJ B))"
    using join0 by simp
  have sJ: "map_of (chat_sessions (fst (snd (joinRoom now st sid B)))) sid =
              Some (session\<lparr>cs_currentRoom := Some B\<rparr>)"
    unfolding stJ by (simp add: joinedState_lookup)
  have rA: "map_of (chat_rooms (fst (snd (joinRoom now st sid B)))) A =
              Some (roomA\<lparr>cr_users := removeAll (cs_userId session) (cr_users roomA)\<rparr>)"
    unfolding stJ using ab by (simp add: joinedState_lookup leftState_lookup)
  have rB: "map_of (chat_rooms (fst (snd (joinRoom now st sid B)))) B =
              Some (roomB\<lparr>cr_users := set_add (cs_userId session) (cr_users roomB)\<rparr>)"
    unfolding stJ by (simp add: joinedState_lookup)
  have inB: "sid \<in> set (sessionsInRoom (fst (snd (joinRoom now st sid B))) B)"
    by (rule sessionsInRoom_self[OF sJ]) simp
  have notA: "sid \<notin> set (sessionsInRoom ?stL A)" if d: "distinct (map fst (chat_sessions st))"
  proof (rule sessionsInRoom_not_self[OF _ s1])
    show "distinct (map fst (chat_sessions ?stL))"
      unfolding leftState_def using d by (simp add: distinct_update)
  qed simp
  have m1: "cs_userId session \<notin> set (removeAll (cs_userId session) (cr_users roomA))" by simp
  have m2: "cs_userId session \<in> set (set_add (cs_userId session) (cr_users roomB))"
    by (simp add: set_set_add)
  show ?thesis
    using leave join m1 m2 sJ rA rB inB notA by (intro conjI impI)
qed

theorem room_switch_ordering_witness:
  "fst (joinRoom 7 aliceBobInGeneral ''s1'' ''random'') = True \<and>
   snd (snd (joinRoom 7 aliceBobInGeneral ''s1'' ''random'')) =
      snd (leaveRoom 7 aliceBobInGeneral ''s1'' ''general'') @
      [(''s1'', Envelope (UserJoined ''Alice'') 7),
       (''s1'', Envelope (RoomUsers ''random'' [(''u1'', ''Alice'', False)]) 7)] \<and>
   snd (leaveRoom 7 aliceBobInGeneral ''s1'' ''general'') =
      [(''s2'', Envelope (UserLeft ''Alice'') 7),
       (''s2'', Envelope (RoomUsers ''general'' [(''u2'', ''Bob'', True)]) 7)] \<and>
   ''s1'' \<in> set (sessionsInRoom (fst (snd (joinRoom 7 aliceBobInGeneral ''s1'' ''random''))) ''random'')"
proof -
  let ?alice = "\<lparr>cs_id = ''s1'', cs_userId = ''u1'', cs_username = ''Alice'', cs_ws = 1,
                  cs_currentRoom = Some ''general'', cs_isGuest = False\<rparr>"
  let ?general = "\<lparr>cr_id = ''general'', cr_name = ''General'',
                    cr_description = ''General discussion for everyone'', cr_isPrivate = False,
                    cr_users = [''u1'', ''u2''], cr_messages = [], cr_createdAt = 0\<rparr>"
  let ?random = "\<lparr>cr_id = ''random'', cr_name = ''Random'',
                   cr_description = ''Random conversations and fun topics'', cr_isPrivate = False,
                   cr_users = [], cr_messages = [], cr_createdAt = 0\<rparr>"
  have h1: "map_of (chat_sessions aliceBobInGeneral) ''s1'' = Some ?alice" by code_simp
  have h2: "cs_currentRoom ?alice = Some ''general''" by simp
  have h3: "''general'' \<noteq> []" by simp
  have h4: "''random'' \<noteq> ''general''" by simp
  have h5: "map_of (chat_rooms aliceBobInGeneral) ''general'' = Some ?general" by code_simp
  have h6: "map_of (chat_rooms aliceBobInGeneral) ''random'' = Some ?random" by code_simp
  note T = room_switch_ordering[OF h1 h2 h3 h4 h5 h6, of 7]
  from T have a: "fst (joinRoom 7 aliceBobInGeneral ''s1'' ''random'') = True" by simp
  from T have b:
    "''s1'' \<in> set (sessionsInRoom (fst (snd (joinRoom 7 aliceBobInGeneral ''s1'' ''random''))) ''random'')"
    by blast
  have c: "snd (snd (joinRoom 7 aliceBobInGeneral ''s1'' ''random'')) =
      snd (leaveRoom 7 aliceBobInGeneral ''s1'' ''general'') @
      [(''s1'', Envelope (UserJoined ''Alice'') 7),
       (''s1'', Envelope (RoomUsers ''random'' [(''u1'', ''Alice'', False)]) 7)]"
    by code_simp
  have d: "snd (leaveRoom 7 aliceBobInGeneral ''s1'' ''general'') =
      [(''s2'', Envelope (UserLeft ''Alice'') 7),
       (''s2'', Envelope (RoomUsers ''general'' [(''u2'', ''Bob'', True)]) 7)]"
    by code_simp
  show ?thesis using a b c d by (intro conjI)
qed

lemma session_update_same:
  "cs_currentRoom session = c \<Longrightarrow> session\<lparr>cs_currentRoom := c\<rparr> = session"
  by (cases session) simp

text \<open>
  C3 (amended). When session \<open>s\<close> is already in room \<open>R\<close>, \<^verbatim>\<open>joinRoom(s, R)\<close> reports
  success and ends in the same registry: every session record is as before and \<open>R\<close> has
  the same member set (its member list is only re-ordered, the user moving to the end).
  It is not a no-op, though: it is carried out as \<^verbatim>\<open>leaveRoom(s, R)\<close> followed by a join,
  so the deliveries of that leave are sent, and then \<^verbatim>\<open>user_joined\<close> and the member list
  go to every session in \<open>R\<close>, \<open>s\<close> included.
\<close>

theorem rejoin_same_room:
  assumes sess: "map_of (chat_sessions st) sid = Some session"
    and cur: "cs_currentRoom session = Some R" and ne: "R \<noteq> []"
    and room: "map_of (chat_rooms st) R = Some room"
    and mem: "cs_userId session \<in> set (cr_users room)"
  shows
    "joinRoom now st sid R =
       (True,
        st\<lparr>chat_rooms := AList.update R
              (room\<lparr>cr_users := removeAll (cs_userId session) (cr_users room) @ [cs_userId session]\<rparr>)
              (chat_rooms st)\<rparr>,
        snd (leaveRoom now st sid R) @
        map (\<lambda>k. (k, Envelope (UserJoined (cs_username session)) now)) (sessionsInRoom st R) @
        map (\<lambda>k. (k, Envelope (RoomUsers R
               (roomUserList st (removeAll (cs_userId session) (cr_users room) @ [cs_userId session]))) now))
          (sessionsInRoom st R)) \<and>
     set (removeAll (cs_userId session) (cr_users room) @ [cs_userId session]) = set (cr_users room) \<and>
     sid \<in> set (sessionsInRoom st R)"
proof -
  let ?u = "cs_userId session"
  let ?stL = "leftState st sid R session room"
  let ?s1 = "session\<lparr>cs_currentRoom := None\<rparr>"
  let ?r1 = "room\<lparr>cr_users := removeAll ?u (cr_users room)\<rparr>"
  let ?stJ = "joinedState ?stL sid R ?s1 ?r1"
  have l: "(if truthy (cs_currentRoom session)
             then leaveRoom now st sid (the (cs_currentRoom session)) else (st, [])) =
           (?stL, snd (leaveRoom now st sid R))"
    using cur ne by (simp add: leaveRoom_Some[OF sess room])
  have s1: "map_of (chat_sessions ?stL) sid = Some ?s1" by (rule leftState_lookup)
  have r1: "map_of (chat_rooms ?stL) R = Some ?r1" by (simp add: leftState_lookup)
  have u1: "chat_users ?stL = chat_users st" by (simp add: leftState_def)
  have join0: "joinRoom now st sid R =
       (True, ?stJ,
        snd (leaveRoom now st sid R) @
        map (\<lambda>k. (k, Envelope (UserJoined (cs_username ?s1)) now)) (sessionsInRoom ?stJ R) @
        map (\<lambda>k. (k, Envelope (RoomUsers R
                          (roomUserList st (set_add (cs_userId ?s1) (cr_users ?r1)))) now))
          (sessionsInRoom ?stJ R))"
    by (rule joinRoom_out[OF sess room l s1 r1 u1])
  have restore: "session\<lparr>cs_currentRoom := None, cs_currentRoom := Some R\<rparr> = session"
    using cur by (cases session) simp
  have sa: "set_add ?u (removeAll ?u (cr_users room)) = removeAll ?u (cr_users room) @ [?u]"
    by (simp add: set_add_def)
  have stJ: "?stJ = st\<lparr>chat_rooms := AList.update R
              (room\<lparr>cr_users := removeAll ?u (cr_users room) @ [?u]\<rparr>) (chat_rooms st)\<rparr>"
    unfolding joinedState_def leftState_def
    using restore sa by (simp add: update_triv[OF sess])
  have sess_same: "sessionsInRoom ?stJ R = sessionsInRoom st R"
    unfolding stJ by (simp add: sessionsInRoom_def)
  have "set (removeAll ?u (cr_users room) @ [?u]) = set (cr_users room)"
    using mem by auto
  moreover have "sid \<in> set (sessionsInRoom st R)"
    by (rule sessionsInRoom_self[OF sess cur])
  moreover have "joinRoom now st sid R =
       (True,
        st\<lparr>chat_rooms := AList.update R
              (room\<lparr>cr_users := removeAll ?u (cr_users room) @ [?u]\<rparr>) (chat_rooms st)\<rparr>,
        snd (leaveRoom now st sid R) @
        map (\<lambda>k. (k, Envelope (UserJoined (cs_username session)) now)) (sessionsInRoom st R) @
        map (\<lambda>k. (k, Envelope (RoomUsers R
               (roomUserList st (removeAll ?u (cr_users room) @ [?u]))) now))
          (sessionsInRoom st R))"
    using join0 unfolding sess_same unfolding stJ by (simp add: sa)
  ultimately show ?thesis by (intro conjI)
qed

theorem rejoin_same_room_witness:
  "fst (joinRoom 5 aliceBobInGeneral ''s1'' ''general'') = True \<and>
   chat_sessions (fst (snd (joinRoom 5 aliceBobInGeneral ''s1'' ''general''))) =
     chat_sessions aliceBobInGeneral \<and>
   ''s1'' \<in> set (sessionsInRoom aliceBobInGeneral ''general'')"
proof -
  let ?alice = "\<lparr>cs_id = ''s1'', cs_userId = ''u1'', cs_username = ''Alice'', cs_ws = 1,
                  cs_currentRoom = Some ''general'', cs_isGuest = False\<rparr>"
  let ?general = "\<lparr>cr_id = ''general'', cr_name = ''General'',
                    cr_description = ''General discussion for everyone'', cr_isPrivate = False,
                    cr_users = [''u1'', ''u2''], cr_messages = [], cr_createdAt = 0\<rparr>"
  have h1: "map_of (chat_sessions aliceBobInGeneral) ''s1'' = Some ?alice" by code_simp
  have h2: "cs_currentRoom ?alice = Some ''general''" by simp
  have h3: "''general'' \<noteq> []" by simp
  have h4: "map_of (chat_rooms aliceBobInGeneral) ''general'' = Some ?general" by code_simp
  have h5: "cs_userId ?alice \<in> set (cr_users ?general)" by simp
  show ?thesis using rejoin_same_room[OF h1 h2 h3 h4 h5, of 5] by simp
qed

theorem rejoin_same_room_counterexample:
  "map_option cs_currentRoom (map_of (chat_sessions aliceBobInGeneral) ''s1'') = Some (Some ''general'') \<and>
   snd (snd (joinRoom 5 aliceBobInGeneral ''s1'' ''general'')) =
     [(''s2'', Envelope (UserLeft ''Alice'') 5),
      (''s2'', Envelope (RoomUsers ''general'' [(''u2'', ''Bob'', True)]) 5),
      (''s1'', Envelope (UserJoined ''Alice'') 5),
      (''s2'', Envelope (UserJoined ''Alice'') 5),
      (''s1'', Envelope (RoomUsers ''general'' [(''u2'', ''Bob'', True), (''u1'', ''Alice'', False)]) 5),
      (''s2'', Envelope (RoomUsers ''general'' [(''u2'', ''Bob'', True), (''u1'', ''Alice'', False)]) 5)]"
  by code_simp

subsection \<open>MessageStore and message histories\<close>

lemma store_inv_abs:
  "store_inv st \<longleftrightarrow>
     distinct (map fst (ms_messages st)) \<and> distinct (map fst (ms_messageIndex st)) \<and>
     hist_ok (map_of (ms_messages st)) (map_of (ms_messageIndex st)) \<and>
     index_ok (map_of (ms_messages st)) (map_of (ms_messageIndex st))"
proof (cases "distinct (map fst (ms_messages st)) \<and> distinct (map fst (ms_messageIndex st))")
  case False
  then show ?thesis by (auto simp: store_inv_def)
next
  case True
  then have d1: "distinct (map fst (ms_messages st))" and d2: "distinct (map fst (ms_messageIndex st))"
    by simp_all
  have a: "(\<forall>(roomId, history) \<in> set (ms_messages st).
        distinct (map msg_id history) \<and>
        (\<forall>m \<in> set history. msg_roomId m = roomId \<and> map_of (ms_messageIndex st) (msg_id m) = Some m))
      \<longleftrightarrow> hist_ok (map_of (ms_messages st)) (map_of (ms_messageIndex st))"
    unfolding hist_ok_def using d1 by auto
  have b: "(\<forall>(messageId, m) \<in> set (ms_messageIndex st).
        msg_id m = messageId \<and> m \<in> set (roomHistory st (msg_roomId m)))
      \<longleftrightarrow> index_ok (map_of (ms_messages st)) (map_of (ms_messageIndex st))"
    unfolding index_ok_def roomHistory_def using d2
    by (auto split: option.splits) force+
  show ?thesis unfolding store_inv_def a b ..
qed

lemma evictIndex_Nil: "evictIndex I [] = I"
  by (simp add: evictIndex_def)

lemma evictIndex_Cons: "evictIndex I (m # ms) = evictIndex (I(msg_id m := None)) ms"
  by (rule ext) (simp add: evictIndex_def)

lemma map_of_fold_delete:
  "map_of (fold (\<lambda>msg index. AList.delete (msg_id msg) index) ms idx) =
     evictIndex (map_of idx) ms"
proof (induction ms arbitrary: idx)
  case Nil
  show ?case by (simp add: evictIndex_Nil)
next
  case (Cons m ms)
  show ?case by (simp only: fold_simps Cons.IH evictIndex_Cons delete_conv')
qed

lemma distinct_fold_delete:
  "distinct (map fst idx) \<Longrightarrow>
   distinct (map fst (fold (\<lambda>msg index. AList.delete (msg_id msg) index) ms idx))"
proof (induction ms arbitrary: idx)
  case Nil
  then show ?case by simp
next
  case (Cons m ms)
  from Cons.prems have "distinct (map fst (AList.delete (msg_id m) idx))" by (rule distinct_delete)
  then show ?case by (simp only: fold_simps Cons.IH)
qed

lemma hist_okD:
  assumes "hist_ok M I" "M r = Some h" "m \<in> set h"
  shows "msg_roomId m = r" and "I (msg_id m) = Some m"
proof -
  from assms(1,2) have "\<forall>m \<in> set h. msg_roomId m = r \<and> I (msg_id m) = Some m"
    unfolding hist_ok_def by blast
  with assms(3) show "msg_roomId m = r" and "I (msg_id m) = Some m" by blast+
qed

lemma hist_index_unique:
  assumes "hist_ok M I" "M r = Some h" "m \<in> set h" "M r' = Some h'" "m' \<in> set h'" "msg_id m = msg_id m'"
  shows "m = m' \<and> r = r'"
proof -
  note a = hist_okD[OF assms(1,2,3)]
  note b = hist_okD[OF assms(1,4,5)]
  have "Some m = I (msg_id m)" using a(2) by (rule sym)
  also have "\<dots> = I (msg_id m')" by (simp only: assms(6))
  also have "\<dots> = Some m'" by (rule b(2))
  finally have eq: "m = m'" by (simp only: option.inject)
  have "r = msg_roomId m" using a(1) by (rule sym)
  also have "\<dots> = msg_roomId m'" by (simp only: eq)
  also have "\<dots> = r'" by (rule b(1))
  finally show ?thesis using eq by (intro conjI)
qed

lemma index_okD:
  assumes "index_ok M I" "I i = Some m"
  shows "msg_id m = i" and "\<exists>h. M (msg_roomId m) = Some h \<and> m \<in> set h"
  using assms unfolding index_ok_def by blast+

lemma evict_hist_ok:
  assumes h: "hist_ok M I" and r: "M r = Some hs"
  shows "hist_ok (M(r \<mapsto> drop k hs)) (evictIndex I (take k hs))"
  unfolding hist_ok_def
proof (intro allI impI)
  let ?I' = "evictIndex I (take k hs)"
  have dist: "distinct (map msg_id hs)" using h r unfolding hist_ok_def by blast
  have "distinct (map msg_id (take k hs @ drop k hs))" using dist by simp
  then have disj: "msg_id ` set (take k hs) \<inter> msg_id ` set (drop k hs) = {}"
    unfolding map_append distinct_append set_map by blast
  fix r' h' assume a: "(M(r \<mapsto> drop k hs)) r' = Some h'"
  show "distinct (map msg_id h') \<and> (\<forall>m\<in>set h'. msg_roomId m = r' \<and> ?I' (msg_id m) = Some m)"
  proof (cases "r' = r")
    case True
    then have h': "h' = drop k hs" using a by simp
    have d: "distinct (map msg_id (drop k hs))" using dist by (simp add: drop_map[symmetric])
    have "msg_roomId m = r \<and> ?I' (msg_id m) = Some m" if "m \<in> set (drop k hs)" for m
    proof -
      from that have mh: "m \<in> set hs" by (rule in_set_dropD)
      have "msg_id m \<notin> msg_id ` set (take k hs)" using disj that by blast
      then have "?I' (msg_id m) = I (msg_id m)" by (simp add: evictIndex_def)
      then show ?thesis using hist_okD[OF h r mh] by simp
    qed
    then show ?thesis using d unfolding h' True by blast
  next
    case False
    then have M: "M r' = Some h'" using a by simp
    have "msg_roomId m = r' \<and> ?I' (msg_id m) = Some m" if "m \<in> set h'" for m
    proof -
      have "msg_id m \<notin> msg_id ` set (take k hs)"
      proof
        assume "msg_id m \<in> msg_id ` set (take k hs)"
        then obtain m' where m': "m' \<in> set (take k hs)" "msg_id m' = msg_id m" by auto
        then have "m' \<in> set hs" by (auto dest: in_set_takeD)
        from hist_index_unique[OF h r this M that m'(2)] False show False by blast
      qed
      then have "?I' (msg_id m) = I (msg_id m)" by (simp add: evictIndex_def)
      then show ?thesis using hist_okD[OF h M that] by simp
    qed
    moreover have "distinct (map msg_id h')" using h M unfolding hist_ok_def by blast
    ultimately show ?thesis by blast
  qed
qed

lemma evict_index_ok:
  assumes i: "index_ok M I" and r: "M r = Some hs"
  shows "index_ok (M(r \<mapsto> drop k hs)) (evictIndex I (take k hs))"
  unfolding index_ok_def
proof (intro allI impI)
  fix j m assume a: "evictIndex I (take k hs) j = Some m"
  then have ni: "j \<notin> msg_id ` set (take k hs)"
    unfolding evictIndex_def by (cases "j \<in> msg_id ` set (take k hs)") simp_all
  then have Ii: "I j = Some m" using a unfolding evictIndex_def by simp
  from index_okD[OF i Ii] obtain h' where h': "msg_id m = j" "M (msg_roomId m) = Some h'" "m \<in> set h'"
    by blast
  show "msg_id m = j \<and> (\<exists>h. (M(r \<mapsto> drop k hs)) (msg_roomId m) = Some h \<and> m \<in> set h)"
  proof (cases "msg_roomId m = r")
    case True
    with h' r have "m \<in> set hs" by simp
    then have "m \<in> set (take k hs @ drop k hs)" by simp
    then have "m \<in> set (take k hs) \<or> m \<in> set (drop k hs)"
      unfolding set_append by blast
    moreover have "m \<notin> set (take k hs)" using ni h'(1) by blast
    ultimately show ?thesis using True h'(1) by simp
  next
    case False
    then show ?thesis using h' by simp
  qed
qed

lemma fresh_not_in_history:
  assumes h: "hist_ok M I" and f: "I uuid = None" and r: "M r = Some hs" and m: "m \<in> set hs"
  shows "msg_id m \<noteq> uuid"
proof
  assume "msg_id m = uuid"
  with hist_okD(2)[OF h r m] f show False by simp
qed

lemma push_hist_ok:
  assumes h: "hist_ok M I" and f: "I uuid = None"
    and idm: "msg_id m = uuid" and rm: "msg_roomId m = r"
    and H: "H = (case M r of None \<Rightarrow> [] | Some hs \<Rightarrow> hs)"
  shows "hist_ok (M(r \<mapsto> H @ [m])) (I(uuid \<mapsto> m))"
  unfolding hist_ok_def
proof (intro allI impI)
  fix r' h' assume a: "(M(r \<mapsto> H @ [m])) r' = Some h'"
  have old: "msg_roomId x = q \<and> (I(uuid \<mapsto> m)) (msg_id x) = Some x"
    if "M q = Some hs" "x \<in> set hs" for q hs x
  proof -
    have "msg_id x \<noteq> uuid" by (rule fresh_not_in_history[OF h f that])
    then show ?thesis using hist_okD[OF h that] by simp
  qed
  show "distinct (map msg_id h') \<and> (\<forall>x\<in>set h'. msg_roomId x = r' \<and> (I(uuid \<mapsto> m)) (msg_id x) = Some x)"
  proof (cases "r' = r")
    case True
    then have h': "h' = H @ [m]" using a by simp
    show ?thesis
    proof (cases "M r")
      case None
      then have "H = []" using H by simp
      then show ?thesis unfolding h' True using idm rm by simp
    next
      case (Some hs)
      then have Hs: "H = hs" using H by simp
      have d: "distinct (map msg_id hs)" using h Some unfolding hist_ok_def by blast
      have n: "uuid \<notin> msg_id ` set hs" using fresh_not_in_history[OF h f Some] by blast
      have "distinct (map msg_id (hs @ [m]))" using d n idm by simp
      moreover have "\<forall>x\<in>set (hs @ [m]). msg_roomId x = r \<and> (I(uuid \<mapsto> m)) (msg_id x) = Some x"
        using old[OF Some] idm rm by auto
      ultimately show ?thesis unfolding h' True Hs by blast
    qed
  next
    case False
    then have M: "M r' = Some h'" using a by simp
    have "distinct (map msg_id h')" using h M unfolding hist_ok_def by blast
    then show ?thesis using old[OF M] by blast
  qed
qed

lemma push_index_ok:
  assumes i: "index_ok M I"
    and idm: "msg_id m = uuid" and rm: "msg_roomId m = r"
    and H: "H = (case M r of None \<Rightarrow> [] | Some hs \<Rightarrow> hs)"
  shows "index_ok (M(r \<mapsto> H @ [m])) (I(uuid \<mapsto> m))"
  unfolding index_ok_def
proof (intro allI impI)
  fix j x assume a: "(I(uuid \<mapsto> m)) j = Some x"
  show "msg_id x = j \<and> (\<exists>h. (M(r \<mapsto> H @ [m])) (msg_roomId x) = Some h \<and> x \<in> set h)"
  proof (cases "j = uuid")
    case True
    then have "x = m" using a by simp
    then show ?thesis using True idm rm by simp
  next
    case False
    then have "I j = Some x" using a by simp
    from index_okD[OF i this] obtain h' where h': "msg_id x = j" "M (msg_roomId x) = Some h'" "x \<in> set h'"
      by blast
    show ?thesis
    proof (cases "msg_roomId x = r")
      case True
      then have "H = h'" using H h'(2) by simp
      then show ?thesis using True h' by simp
    next
      case False
      then show ?thesis using h' by simp
    qed
  qed
qed

lemma removeFirst_filter:
  "distinct (map msg_id h) \<Longrightarrow> removeFirstWithId i h = filter (\<lambda>m. msg_id m \<noteq> i) h"
proof (induction h)
  case Nil
  then show ?case by simp
next
  case (Cons m ms)
  show ?case
  proof (cases "msg_id m = i")
    case True
    then have "i \<notin> msg_id ` set ms" using Cons.prems by auto
    then have "filter (\<lambda>m. msg_id m \<noteq> i) ms = ms" by (auto intro: filter_True)
    then show ?thesis using True by simp
  next
    case False
    then show ?thesis using Cons by simp
  qed
qed

lemma delete_hist_ok:
  assumes h: "hist_ok M I" and i: "index_ok M I" and f: "I mid = Some msg"
    and r: "M (msg_roomId msg) = Some hs"
  shows "hist_ok (M(msg_roomId msg \<mapsto> removeFirstWithId mid hs)) (I(mid := None))"
  unfolding hist_ok_def
proof (intro allI impI)
  let ?r = "msg_roomId msg"
  have d: "distinct (map msg_id hs)" using h r unfolding hist_ok_def by blast
  have rf: "removeFirstWithId mid hs = filter (\<lambda>m. msg_id m \<noteq> mid) hs" by (rule removeFirst_filter[OF d])
  fix r' h' assume a: "(M(?r \<mapsto> removeFirstWithId mid hs)) r' = Some h'"
  show "distinct (map msg_id h') \<and> (\<forall>x\<in>set h'. msg_roomId x = r' \<and> (I(mid := None)) (msg_id x) = Some x)"
  proof (cases "r' = ?r")
    case True
    then have h': "h' = filter (\<lambda>m. msg_id m \<noteq> mid) hs" using a rf by simp
    have "distinct (map msg_id (filter (\<lambda>m. msg_id m \<noteq> mid) hs))"
      using d by (simp add: distinct_map_filter)
    moreover have "msg_roomId x = ?r \<and> (I(mid := None)) (msg_id x) = Some x"
      if "x \<in> set (filter (\<lambda>m. msg_id m \<noteq> mid) hs)" for x
    proof -
      from that have x: "x \<in> set hs" "msg_id x \<noteq> mid" by simp_all
      show ?thesis using hist_okD[OF h r x(1)] x(2) by simp
    qed
    ultimately show ?thesis unfolding h' True by blast
  next
    case False
    then have M: "M r' = Some h'" using a by simp
    have "msg_roomId x = r' \<and> (I(mid := None)) (msg_id x) = Some x" if "x \<in> set h'" for x
    proof -
      have "msg_id x \<noteq> mid"
      proof
        assume e: "msg_id x = mid"
        have "Some x = I (msg_id x)" using hist_okD(2)[OF h M that] by (rule sym)
        also have "\<dots> = Some msg" using f by (simp only: e)
        finally have "x = msg" by (simp only: option.inject)
        then have "msg_roomId x = ?r" by (simp only:)
        with hist_okD(1)[OF h M that] False show False by simp
      qed
      then show ?thesis using hist_okD[OF h M that] by simp
    qed
    moreover have "distinct (map msg_id h')" using h M unfolding hist_ok_def by blast
    ultimately show ?thesis by blast
  qed
qed

lemma delete_index_ok:
  assumes h: "hist_ok M I" and i: "index_ok M I"
    and r: "M rr = Some hs"
  shows "index_ok (M(rr \<mapsto> removeFirstWithId mid hs)) (I(mid := None))"
  unfolding index_ok_def
proof (intro allI impI)
  have d: "distinct (map msg_id hs)" using h r unfolding hist_ok_def by blast
  have rf: "removeFirstWithId mid hs = filter (\<lambda>m. msg_id m \<noteq> mid) hs" by (rule removeFirst_filter[OF d])
  fix j x assume a: "(I(mid := None)) j = Some x"
  then have jm: "j \<noteq> mid" by (cases "j = mid") simp_all
  then have "I j = Some x" using a by simp
  from index_okD[OF i this] obtain h' where h': "msg_id x = j" "M (msg_roomId x) = Some h'" "x \<in> set h'"
    by blast
  show "msg_id x = j \<and> (\<exists>h. (M(rr \<mapsto> removeFirstWithId mid hs)) (msg_roomId x) = Some h \<and> x \<in> set h)"
  proof (cases "msg_roomId x = rr")
    case True
    then have "x \<in> set hs" using h' r by simp
    then have "x \<in> set (removeFirstWithId mid hs)" unfolding rf using h'(1) jm by simp
    then show ?thesis using True h'(1) by simp
  next
    case False
    then show ?thesis using h' by simp
  qed
qed

lemma store_inv_mk:
  "store_inv \<lparr>ms_messages = X, ms_messageIndex = Y\<rparr> \<longleftrightarrow>
     distinct (map fst X) \<and> distinct (map fst Y) \<and>
     hist_ok (map_of X) (map_of Y) \<and> index_ok (map_of X) (map_of Y)"
  unfolding store_inv_abs by simp

lemma store_invD:
  assumes "store_inv st"
  shows "distinct (map fst (ms_messages st))" "distinct (map fst (ms_messageIndex st))"
    "hist_ok (map_of (ms_messages st)) (map_of (ms_messageIndex st))"
    "index_ok (map_of (ms_messages st)) (map_of (ms_messageIndex st))"
  using assms unfolding store_inv_abs by blast+

lemma cleanupOldMessages_evict:
  assumes "map_of (ms_messages st) r = Some hs" "length hs > n"
  shows "cleanupOldMessages st r n =
           \<lparr>ms_messages = AList.update r (drop (length hs - n) hs) (ms_messages st),
            ms_messageIndex = fold (\<lambda>msg index. AList.delete (msg_id msg) index)
                                (take (length hs - n) hs) (ms_messageIndex st)\<rparr>"
  unfolding cleanupOldMessages_def Let_def using assms by (simp only: option.case if_True)

lemma cleanupOldMessages_same:
  assumes "map_of (ms_messages st) r = None \<or>
           (\<exists>hs. map_of (ms_messages st) r = Some hs \<and> \<not> length hs > n)"
  shows "cleanupOldMessages st r n = st"
  unfolding cleanupOldMessages_def using assms by (auto split: option.splits)

lemma cleanupOldMessages_inv:
  assumes inv: "store_inv st"
  shows "store_inv (cleanupOldMessages st r n)"
proof (cases "\<exists>hs. map_of (ms_messages st) r = Some hs \<and> length hs > n")
  case False
  then have "cleanupOldMessages st r n = st"
    by (intro cleanupOldMessages_same) (cases "map_of (ms_messages st) r", auto)
  then show ?thesis using inv by simp
next
  case True
  then obtain hs where hs: "map_of (ms_messages st) r = Some hs" "length hs > n" by blast
  note D = store_invD[OF inv]
  show ?thesis
    unfolding cleanupOldMessages_evict[OF hs] store_inv_mk update_conv' map_of_fold_delete
    using distinct_update[OF D(1)] distinct_fold_delete[OF D(2)]
      evict_hist_ok[OF D(3) hs(1)] evict_index_ok[OF D(4) hs(1)]
    by (intro conjI)
qed

lemma addMessage_eq:
  "addMessage uuid now st roomId userId content type replyTo =
     (cleanupOldMessages (pushed uuid now st roomId userId content type replyTo) roomId defaultMaxMessages,
      \<lparr>msg_id = uuid, msg_roomId = roomId, msg_userId = userId, msg_content = content,
        msg_type = type, msg_timestamp = now, msg_replyTo = replyTo,
        msg_reactions = [], msg_edited = None\<rparr>)"
proof (cases "map_of (ms_messages st) roomId")
  case None
  then show ?thesis
    unfolding addMessage_def pushed_def roomHistory_def Let_def
    by (simp add: update_conv')
next
  case (Some hs)
  then show ?thesis
    unfolding addMessage_def pushed_def roomHistory_def Let_def
    by simp
qed

lemma pushed_inv:
  assumes inv: "store_inv st" and fresh: "map_of (ms_messageIndex st) uuid = None"
  shows "store_inv (pushed uuid now st roomId userId content type replyTo)"
proof -
  note D = store_invD[OF inv]
  let ?m = "\<lparr>msg_id = uuid, msg_roomId = roomId, msg_userId = userId, msg_content = content,
               msg_type = type, msg_timestamp = now, msg_replyTo = replyTo,
               msg_reactions = [], msg_edited = None\<rparr>"
  have idm: "msg_id ?m = uuid" and rm: "msg_roomId ?m = roomId" by simp_all
  have H: "roomHistory st roomId =
             (case map_of (ms_messages st) roomId of None \<Rightarrow> [] | Some hs \<Rightarrow> hs)"
    by (simp add: roomHistory_def)
  show ?thesis
    unfolding pushed_def store_inv_mk update_conv'
    using distinct_update[OF D(1)] distinct_update[OF D(2)]
      push_hist_ok[OF D(3) fresh idm rm H] push_index_ok[OF D(4) idm rm H]
    by (intro conjI)
qed

lemma addMessage_inv:
  assumes inv: "store_inv st" and fresh: "map_of (ms_messageIndex st) uuid = None"
  shows "store_inv (fst (addMessage uuid now st roomId userId content type replyTo))"
  unfolding addMessage_eq fst_conv
  by (rule cleanupOldMessages_inv[OF pushed_inv[OF inv fresh]])

lemma deleteMessage_inv:
  assumes inv: "store_inv st"
  shows "store_inv (fst (deleteMessage st mid uid isMod))"
proof (cases "map_of (ms_messageIndex st) mid")
  case None
  then show ?thesis using inv by (simp add: deleteMessage_def)
next
  case (Some msg)
  note D = store_invD[OF inv]
  show ?thesis
  proof (cases "\<not> isMod \<and> msg_userId msg \<noteq> uid")
    case True
    then show ?thesis using inv Some by (simp add: deleteMessage_def)
  next
    case False
    from index_okD(2)[OF D(4) Some] obtain hs where
      hs: "map_of (ms_messages st) (msg_roomId msg) = Some hs" by blast
    have eq: "fst (deleteMessage st mid uid isMod) =
            \<lparr>ms_messages = AList.update (msg_roomId msg) (removeFirstWithId mid hs) (ms_messages st),
             ms_messageIndex = AList.delete mid (ms_messageIndex st)\<rparr>"
      using False Some hs unfolding deleteMessage_def Let_def by auto
    show ?thesis
      unfolding eq store_inv_mk update_conv' delete_conv'
      using distinct_update[OF D(1)] distinct_delete[OF D(2)]
        delete_hist_ok[OF D(3) D(4) Some hs] delete_index_ok[OF D(3) D(4) hs]
      by (intro conjI)
  qed
qed

lemma newMessageStore_inv: "store_inv newMessageStore"
  by (simp add: store_inv_def newMessageStore_def)

lemma getMessage_None_iff:
  assumes inv: "store_inv st"
  shows "getMessage st i = None \<longleftrightarrow> (\<forall>(r, h) \<in> set (ms_messages st). i \<notin> msg_id ` set h)"
proof
  note D = store_invD[OF inv]
  assume n: "getMessage st i = None"
  show "\<forall>(r, h) \<in> set (ms_messages st). i \<notin> msg_id ` set h"
  proof (clarify)
    fix r h m assume a: "(r, h) \<in> set (ms_messages st)" "m \<in> set h" "i = msg_id m"
    from D(1) a(1) have "map_of (ms_messages st) r = Some h" by simp
    from hist_okD(2)[OF D(3) this a(2)] n a(3) show False by (simp add: getMessage_def)
  qed
next
  note D = store_invD[OF inv]
  assume a: "\<forall>(r, h) \<in> set (ms_messages st). i \<notin> msg_id ` set h"
  show "getMessage st i = None"
  proof (rule ccontr)
    assume "getMessage st i \<noteq> None"
    then obtain m where m: "map_of (ms_messageIndex st) i = Some m" by (auto simp: getMessage_def)
    from index_okD[OF D(4) m] obtain h where
      h: "msg_id m = i" "map_of (ms_messages st) (msg_roomId m) = Some h" "m \<in> set h" by blast
    from map_of_SomeD[OF h(2)] a h(1,3) show False by blast
  qed
qed

lemma slice_last_length: "length (slice_last n xs) \<le> n"
  by (simp add: slice_last_def)

lemma slice_last_append: "slice_last n (slice_last n xs @ ys) = slice_last n (xs @ ys)"
proof (cases "length xs \<le> n")
  case True
  then show ?thesis by (simp add: slice_last_def)
next
  case False
  then have l: "length (drop (length xs - n) xs) = n" by simp
  have "slice_last n (xs @ ys) = drop ((length xs - n) + length ys) (xs @ ys)"
    using False by (simp add: slice_last_def)
  also have "\<dots> = drop (length ys) (drop (length xs - n) (xs @ ys))"
    by (simp add: add.commute)
  also have "\<dots> = drop (length ys) (drop (length xs - n) xs @ ys)" by simp
  finally show ?thesis using l by (simp add: slice_last_def)
qed

lemma roomHistory_mk:
  "roomHistory \<lparr>ms_messages = X, ms_messageIndex = Y\<rparr> r = (case map_of X r of None \<Rightarrow> [] | Some h \<Rightarrow> h)"
  by (simp add: roomHistory_def)

lemma roomHistory_pushed:
  "roomHistory (pushed uuid now st roomId userId content type replyTo) r =
     (if r = roomId
      then roomHistory st roomId @
             [\<lparr>msg_id = uuid, msg_roomId = roomId, msg_userId = userId, msg_content = content,
               msg_type = type, msg_timestamp = now, msg_replyTo = replyTo,
               msg_reactions = [], msg_edited = None\<rparr>]
      else roomHistory st r)"
  unfolding pushed_def roomHistory_mk update_conv' by (simp add: roomHistory_def)

lemma roomHistory_cleanup:
  "roomHistory (cleanupOldMessages st r n) r' =
     (if r' = r then slice_last n (roomHistory st r) else roomHistory st r')"
proof (cases "\<exists>hs. map_of (ms_messages st) r = Some hs \<and> length hs > n")
  case False
  then have same: "cleanupOldMessages st r n = st"
    by (intro cleanupOldMessages_same) (cases "map_of (ms_messages st) r", auto)
  have "slice_last n (roomHistory st r) = roomHistory st r"
    using False by (cases "map_of (ms_messages st) r") (auto simp: roomHistory_def slice_last_def)
  then show ?thesis unfolding same by simp
next
  case True
  then obtain hs where hs: "map_of (ms_messages st) r = Some hs" "length hs > n" by blast
  show ?thesis
    unfolding cleanupOldMessages_evict[OF hs] roomHistory_mk update_conv'
    using hs(1) by (simp add: roomHistory_def slice_last_def)
qed

lemma roomHistory_addMessage:
  "roomHistory (fst (addMessage uuid now st roomId userId content type replyTo)) r =
     (if r = roomId
      then slice_last defaultMaxMessages
             (roomHistory st roomId @ [snd (addMessage uuid now st roomId userId content type replyTo)])
      else roomHistory st r)"
  unfolding addMessage_eq fst_conv snd_conv roomHistory_cleanup roomHistory_pushed by simp

lemma roomHistory_addMessages:
  "slice_last defaultMaxMessages (roomHistory (addMessages st xs) r) =
     slice_last defaultMaxMessages
       (roomHistory st r @ map mkMessage (filter (\<lambda>x. nm_roomId x = r) xs))"
proof (induction xs arbitrary: st)
  case Nil
  show ?case by simp
next
  case (Cons x xs)
  have m: "snd (addMessage (nm_uuid x) (nm_now x) st (nm_roomId x) (nm_userId x) (nm_content x)
               (nm_type x) (nm_replyTo x)) = mkMessage x"
    by (simp add: addMessage_eq mkMessage_def)
  show ?case
  proof (cases "nm_roomId x = r")
    case True
    show ?thesis
      unfolding addMessages.simps Cons.IH roomHistory_addMessage m
      using True by (simp add: slice_last_append)
  next
    case False
    show ?thesis
      unfolding addMessages.simps Cons.IH roomHistory_addMessage m
      using False by simp
  qed
qed

lemma roomHistory_addMessages_bounded:
  assumes "length (roomHistory st r) \<le> defaultMaxMessages"
  shows "length (roomHistory (addMessages st xs) r) \<le> defaultMaxMessages"
  using assms
proof (induction xs arbitrary: st)
  case Nil
  then show ?case by simp
next
  case (Cons x xs)
  have "length (roomHistory (fst (addMessage (nm_uuid x) (nm_now x) st (nm_roomId x) (nm_userId x)
          (nm_content x) (nm_type x) (nm_replyTo x))) r) \<le> defaultMaxMessages"
    unfolding roomHistory_addMessage using Cons.prems by (simp add: slice_last_length)
  then show ?case unfolding addMessages.simps by (rule Cons.IH)
qed

lemma slice_last_id: "length xs \<le> n \<Longrightarrow> slice_last n xs = xs"
  by (simp add: slice_last_def)

lemma roomHistory_addMessages_new:
  "roomHistory (addMessages newMessageStore xs) r =
     slice_last defaultMaxMessages (map mkMessage (filter (\<lambda>x. nm_roomId x = r) xs))"
proof -
  have e: "roomHistory newMessageStore r = []" by (simp add: roomHistory_def newMessageStore_def)
  then have "length (roomHistory newMessageStore r) \<le> defaultMaxMessages" by simp
  then have "length (roomHistory (addMessages newMessageStore xs) r) \<le> defaultMaxMessages"
    by (rule roomHistory_addMessages_bounded)
  then have "roomHistory (addMessages newMessageStore xs) r =
               slice_last defaultMaxMessages (roomHistory (addMessages newMessageStore xs) r)"
    by (simp add: slice_last_id)
  then show ?thesis unfolding roomHistory_addMessages e by simp
qed

lemma set_update_subset: "set (AList.update k v al) \<subseteq> insert (k, v) (set al)"
  by (induction al) auto

lemma kept_slice:
  "(if length xs > n then slice_last n xs else xs) = slice_last n xs"
  by (simp add: slice_last_def)

lemma sendMessage_Some:
  assumes sess: "map_of (chat_sessions st) sid = Some session"
    and cur: "cs_currentRoom session = Some c" and ne: "c \<noteq> []"
    and room: "map_of (chat_rooms st) c = Some room"
  shows "fst (sendMessage uuid now st sid content) = True \<and>
         chat_rooms (fst (snd (sendMessage uuid now st sid content))) =
           AList.update c
             (room\<lparr>cr_messages := slice_last 100
                (cr_messages room @
                   [\<lparr>cm_id = uuid, cm_content = content, cm_userId = cs_userId session,
                     cm_username = cs_username session, cm_roomId = c, cm_timestamp = now,
                     cm_type = TypeMessage\<rparr>])\<rparr>)
             (chat_rooms st)"
  unfolding sendMessage_def Let_def kept_slice
  using sess cur ne room by simp

lemma sendMessage_fail:
  assumes "fst (sendMessage uuid now st sid content) = False"
  shows "fst (snd (sendMessage uuid now st sid content)) = st"
  using assms unfolding sendMessage_def Let_def
  by (auto split: option.splits if_splits)

lemma sendMessage_rooms:
  "chat_rooms (fst (snd (sendMessage uuid now st sid content))) = chat_rooms st \<or>
   (\<exists>c room msg. map_of (chat_rooms st) c = Some room \<and>
      chat_rooms (fst (snd (sendMessage uuid now st sid content))) =
        AList.update c (room\<lparr>cr_messages := slice_last 100 (cr_messages room @ [msg])\<rparr>) (chat_rooms st))"
proof (cases "map_of (chat_sessions st) sid")
  case None
  then show ?thesis by (simp add: sendMessage_def)
next
  case (Some session)
  show ?thesis
  proof (cases "truthy (cs_currentRoom session)")
    case False
    then show ?thesis using Some by (simp add: sendMessage_def)
  next
    case True
    then obtain c where c: "cs_currentRoom session = Some c" "c \<noteq> []"
      by (cases "cs_currentRoom session") auto
    show ?thesis
    proof (cases "map_of (chat_rooms st) c")
      case None
      then show ?thesis using Some c by (simp add: sendMessage_def)
    next
      case (Some room)
      from sendMessage_Some[OF \<open>map_of (chat_sessions st) sid = Some session\<close> c Some, of uuid now content]
      show ?thesis using Some by blast
    qed
  qed
qed

lemma sendMessage_bounded:
  assumes "chatHistoryBounded st"
  shows "chatHistoryBounded (fst (snd (sendMessage uuid now st sid content)))"
proof -
  from sendMessage_rooms[of uuid now st sid content]
  show ?thesis
  proof
    assume "chat_rooms (fst (snd (sendMessage uuid now st sid content))) = chat_rooms st"
    then show ?thesis using assms by (simp add: chatHistoryBounded_def)
  next
    assume "\<exists>c room msg. map_of (chat_rooms st) c = Some room \<and>
      chat_rooms (fst (snd (sendMessage uuid now st sid content))) =
        AList.update c (room\<lparr>cr_messages := slice_last 100 (cr_messages room @ [msg])\<rparr>) (chat_rooms st)"
    then obtain c room msg where
      e: "chat_rooms (fst (snd (sendMessage uuid now st sid content))) =
        AList.update c (room\<lparr>cr_messages := slice_last 100 (cr_messages room @ [msg])\<rparr>) (chat_rooms st)"
      by blast
    show ?thesis
      unfolding chatHistoryBounded_def e
    proof (clarify)
      fix rid rm
      assume "(rid, rm) \<in> set (AList.update c (room\<lparr>cr_messages := slice_last 100 (cr_messages room @ [msg])\<rparr>) (chat_rooms st))"
      then have "(rid, rm) = (c, room\<lparr>cr_messages := slice_last 100 (cr_messages room @ [msg])\<rparr>) \<or>
                 (rid, rm) \<in> set (chat_rooms st)"
        using set_update_subset by fastforce
      then show "length (cr_messages rm) \<le> 100"
      proof
        assume "(rid, rm) = (c, room\<lparr>cr_messages := slice_last 100 (cr_messages room @ [msg])\<rparr>)"
        then show ?thesis by (simp add: slice_last_length)
      next
        assume "(rid, rm) \<in> set (chat_rooms st)"
        then show ?thesis using assms unfolding chatHistoryBounded_def by blast
      qed
    qed
  qed
qed

text \<open>
  C2. Both message histories are bounded first-in first-out queues. In \<^verbatim>\<open>MessageStore\<close>
  (cap 1000) the history of a room after \<^verbatim>\<open>addMessage\<close> is the last 1000 entries of the old
  history followed by the new message, so after any sequence of additions to a fresh
  store it is the last 1000 messages added to that room, never more than 1000; after
  1001 additions to one room it holds 1000 messages, all but the first. In \<^verbatim>\<open>ChatManager\<close>
  (cap 100) a successful \<^verbatim>\<open>sendMessage\<close> leaves the room with the last 100 entries of the
  old history followed by the new message, and no operation of it lets a history grow
  beyond 100.
\<close>

theorem bounded_fifo_history:
  "roomHistory (fst (addMessage uuid now ms roomId userId content type replyTo)) roomId =
     slice_last 1000
       (roomHistory ms roomId @ [snd (addMessage uuid now ms roomId userId content type replyTo)]) \<and>
   length (roomHistory (fst (addMessage uuid now ms roomId userId content type replyTo)) roomId) \<le> 1000 \<and>
   roomHistory (addMessages newMessageStore xs) r =
     slice_last 1000 (map mkMessage (filter (\<lambda>x. nm_roomId x = r) xs)) \<and>
   length (roomHistory (addMessages newMessageStore xs) r) \<le> 1000 \<and>
   (length (filter (\<lambda>x. nm_roomId x = r) xs) = 1001 \<longrightarrow>
      length (roomHistory (addMessages newMessageStore xs) r) = 1000 \<and>
      roomHistory (addMessages newMessageStore xs) r =
        tl (map mkMessage (filter (\<lambda>x. nm_roomId x = r) xs))) \<and>
   chatHistoryBounded (newChatManager now) \<and>
   (chatHistoryBounded st \<longrightarrow> chatHistoryBounded (fst (snd (sendMessage uuid now st sid content)))) \<and>
   (\<forall>session c room.
      map_of (chat_sessions st) sid = Some session \<and> cs_currentRoom session = Some c \<and> c \<noteq> [] \<and>
      map_of (chat_rooms st) c = Some room \<longrightarrow>
      fst (sendMessage uuid now st sid content) = True \<and>
      map_of (chat_rooms (fst (snd (sendMessage uuid now st sid content)))) c =
        Some (room\<lparr>cr_messages := slice_last 100
                (cr_messages room @
                   [\<lparr>cm_id = uuid, cm_content = content, cm_userId = cs_userId session,
                     cm_username = cs_username session, cm_roomId = c, cm_timestamp = now,
                     cm_type = TypeMessage\<rparr>])\<rparr>))"
proof -
  have a: "roomHistory (fst (addMessage uuid now ms roomId userId content type replyTo)) roomId =
     slice_last 1000
       (roomHistory ms roomId @ [snd (addMessage uuid now ms roomId userId content type replyTo)])"
    unfolding roomHistory_addMessage defaultMaxMessages_def by simp
  have b: "length (roomHistory (fst (addMessage uuid now ms roomId userId content type replyTo)) roomId) \<le> 1000"
    unfolding a by (rule slice_last_length)
  have c: "roomHistory (addMessages newMessageStore xs) r =
     slice_last 1000 (map mkMessage (filter (\<lambda>x. nm_roomId x = r) xs))"
    unfolding roomHistory_addMessages_new defaultMaxMessages_def ..
  have d: "length (roomHistory (addMessages newMessageStore xs) r) \<le> 1000"
    unfolding c by (rule slice_last_length)
  have e: "length (roomHistory (addMessages newMessageStore xs) r) = 1000 \<and>
      roomHistory (addMessages newMessageStore xs) r =
        tl (map mkMessage (filter (\<lambda>x. nm_roomId x = r) xs))"
    if "length (filter (\<lambda>x. nm_roomId x = r) xs) = 1001"
    unfolding c using that by (simp add: slice_last_def drop_Suc)
  have f: "chatHistoryBounded (newChatManager now)"
    by (simp add: chatHistoryBounded_def newChatManager_def createDefaultRooms_def)
  have g: "chatHistoryBounded (fst (snd (sendMessage uuid now st sid content)))" if "chatHistoryBounded st"
    using that by (rule sendMessage_bounded)
  have h: "fst (sendMessage uuid now st sid content) = True \<and>
      map_of (chat_rooms (fst (snd (sendMessage uuid now st sid content)))) c =
        Some (room\<lparr>cr_messages := slice_last 100
                (cr_messages room @
                   [\<lparr>cm_id = uuid, cm_content = content, cm_userId = cs_userId session,
                     cm_username = cs_username session, cm_roomId = c, cm_timestamp = now,
                     cm_type = TypeMessage\<rparr>])\<rparr>)"
    if "map_of (chat_sessions st) sid = Some session \<and> cs_currentRoom session = Some c \<and> c \<noteq> [] \<and>
      map_of (chat_rooms st) c = Some room" for session c room
  proof -
    from that have t: "map_of (chat_sessions st) sid = Some session" "cs_currentRoom session = Some c"
      "c \<noteq> []" "map_of (chat_rooms st) c = Some room" by blast+
    show ?thesis using sendMessage_Some[OF t, of uuid now content] by (simp add: update_conv')
  qed
  have e': "length (filter (\<lambda>x. nm_roomId x = r) xs) = 1001 \<longrightarrow>
      length (roomHistory (addMessages newMessageStore xs) r) = 1000 \<and>
      roomHistory (addMessages newMessageStore xs) r =
        tl (map mkMessage (filter (\<lambda>x. nm_roomId x = r) xs))"
    using e by (rule impI)
  have g': "chatHistoryBounded st \<longrightarrow> chatHistoryBounded (fst (snd (sendMessage uuid now st sid content)))"
    using g by (rule impI)
  have h': "\<forall>session c room.
      map_of (chat_sessions st) sid = Some session \<and> cs_currentRoom session = Some c \<and> c \<noteq> [] \<and>
      map_of (chat_rooms st) c = Some room \<longrightarrow>
      fst (sendMessage uuid now st sid content) = True \<and>
      map_of (chat_rooms (fst (snd (sendMessage uuid now st sid content)))) c =
        Some (room\<lparr>cr_messages := slice_last 100
                (cr_messages room @
                   [\<lparr>cm_id = uuid, cm_content = content, cm_userId = cs_userId session,
                     cm_username = cs_username session, cm_roomId = c, cm_timestamp = now,
                     cm_type = TypeMessage\<rparr>])\<rparr>)"
    using h by (intro allI impI)
  show ?thesis using a b c d e' f g' h' by (intro conjI)
qed

theorem bounded_fifo_history_witness:
  "length (filter (\<lambda>x. nm_roomId x = ''general'') manyMessages) = 1001 \<and>
   length (roomHistory (addMessages newMessageStore manyMessages) ''general'') = 1000 \<and>
   roomHistory (addMessages newMessageStore manyMessages) ''general'' = tl (map mkMessage manyMessages) \<and>
   chatHistoryBounded aliceInGeneral \<and>
   chatHistoryBounded (fst (snd (sendMessage ''m1'' 9 aliceInGeneral ''s1'' ''hello'')))"
proof -
  have f: "filter (\<lambda>x. nm_roomId x = ''general'') manyMessages = manyMessages"
    by (simp add: manyMessages_def filter_map o_def)
  have l: "length (filter (\<lambda>x. nm_roomId x = ''general'') manyMessages) = 1001"
    unfolding f by (simp add: manyMessages_def)
  have b: "chatHistoryBounded aliceInGeneral" by code_simp
  note T = bounded_fifo_history[where xs = manyMessages and r = "''general''" and st = aliceInGeneral
      and uuid = "''m1''" and now = 9 and sid = "''s1''" and content = "''hello''"]
  from T l have "length (roomHistory (addMessages newMessageStore manyMessages) ''general'') = 1000 \<and>
      roomHistory (addMessages newMessageStore manyMessages) ''general'' =
        tl (map mkMessage (filter (\<lambda>x. nm_roomId x = ''general'') manyMessages))"
    by blast
  moreover from T b
  have "chatHistoryBounded (fst (snd (sendMessage ''m1'' 9 aliceInGeneral ''s1'' ''hello'')))"
    by blast
  ultimately show ?thesis using l b unfolding f by (intro conjI) simp_all
qed

subsection \<open>RoomManager and SessionManager\<close>

text \<open>
  C8. \<^verbatim>\<open>deleteRoom('general', r)\<close> fails for every requester and every state, and changes
  nothing; no \<^verbatim>\<open>deleteRoom\<close> call at all removes or alters the \<open>general\<close> room, which exists
  from construction. \<^verbatim>\<open>deleteRoom\<close> succeeds exactly when the room exists, the requester
  is its creator and the room id is neither \<open>general\<close> nor \<open>random\<close>; in particular it
  succeeds only when the requester is a moderator or the creator and the room is not a
  default room.
\<close>

theorem default_room_protected:
  "success (snd (deleteRoom st ''general'' requesterId)) = False \<and>
   fst (deleteRoom st ''general'' requesterId) = st \<and>
   map_of (rm_rooms (fst (deleteRoom st roomId requesterId))) ''general'' =
     map_of (rm_rooms st) ''general'' \<and>
   map_of (rm_rooms (newRoomManager now)) ''general'' \<noteq> None \<and>
   (success (snd (deleteRoom st roomId requesterId)) \<longrightarrow>
      (isModerator st roomId requesterId \<or>
       map_option room_createdBy (map_of (rm_rooms st) roomId) = Some requesterId) \<and>
      roomId \<notin> {''general'', ''random''}) \<and>
   (success (snd (deleteRoom st roomId requesterId)) \<longleftrightarrow>
      map_option room_createdBy (map_of (rm_rooms st) roomId) = Some requesterId \<and>
      roomId \<notin> {''general'', ''random''})"
proof -
  have a: "success (snd (deleteRoom st ''general'' requesterId)) = False \<and>
           fst (deleteRoom st ''general'' requesterId) = st"
    unfolding deleteRoom_def by (simp split: option.splits)
  have b: "map_of (rm_rooms (fst (deleteRoom st roomId requesterId))) ''general'' =
     map_of (rm_rooms st) ''general''"
  proof (cases "roomId = ''general''")
    case True
    then show ?thesis using a by simp
  next
    case False
    then show ?thesis
      unfolding deleteRoom_def by (simp add: delete_conv' split: option.splits)
  qed
  have c: "map_of (rm_rooms (newRoomManager now)) ''general'' \<noteq> None"
    by (simp add: newRoomManager_def Let_def update_conv')
  have d: "success (snd (deleteRoom st roomId requesterId)) \<longleftrightarrow>
      map_option room_createdBy (map_of (rm_rooms st) roomId) = Some requesterId \<and>
      roomId \<notin> {''general'', ''random''}"
    unfolding deleteRoom_def by (cases "map_of (rm_rooms st) roomId") (simp_all only: option.case map_option_case, auto)
  have e: "success (snd (deleteRoom st roomId requesterId)) \<longrightarrow>
      (isModerator st roomId requesterId \<or>
       map_option room_createdBy (map_of (rm_rooms st) roomId) = Some requesterId) \<and>
      roomId \<notin> {''general'', ''random''}"
    using d by blast
  show ?thesis using a b c d e by (intro conjI) simp_all
qed

theorem default_room_protected_witness:
  "success (snd (deleteRoom (newRoomManager 0) ''general'' ''system'')) = False \<and>
   success (snd (deleteRoom devRoomCreated ''r1'' ''u1'')) = True \<and>
   map_option room_createdBy (map_of (rm_rooms devRoomCreated) ''r1'') = Some ''u1'' \<and>
   map_of (rm_rooms (fst (deleteRoom devRoomCreated ''r1'' ''u1''))) ''general'' =
     map_of (rm_rooms devRoomCreated) ''general''"
proof -
  have s: "success (snd (deleteRoom devRoomCreated ''r1'' ''u1''))" by code_simp
  note T = default_room_protected[where st = devRoomCreated and roomId = "''r1''" and requesterId = "''u1''"]
  from T s have "map_option room_createdBy (map_of (rm_rooms devRoomCreated) ''r1'') = Some ''u1''"
    by blast
  moreover from T have "map_of (rm_rooms (fst (deleteRoom devRoomCreated ''r1'' ''u1''))) ''general'' =
     map_of (rm_rooms devRoomCreated) ''general''" by blast
  moreover from default_room_protected[where st = "newRoomManager 0" and requesterId = "''system''"]
  have "success (snd (deleteRoom (newRoomManager 0) ''general'' ''system'')) = False" by blast
  ultimately show ?thesis using s by (intro conjI) simp_all
qed

lemma whitespace_not_username: "isWhiteSpace c \<Longrightarrow> \<not> isUsernameChar c"
  by (auto simp: isWhiteSpace_def isUsernameChar_def Let_def)

lemma dropWhile_Nil_all: "dropWhile P xs = [] \<Longrightarrow> list_all P xs"
  by (induction xs) (auto split: if_splits)

lemma trim_empty:
  assumes "trim s = []"
  shows "list_all isWhiteSpace s"
proof -
  from assms have "dropWhile isWhiteSpace (rev (dropWhile isWhiteSpace s)) = []"
    by (simp add: trim_def)
  then have "list_all isWhiteSpace (rev (dropWhile isWhiteSpace s))" by (rule dropWhile_Nil_all)
  then have a: "\<forall>c \<in> set (dropWhile isWhiteSpace s). isWhiteSpace c" by (simp add: list_all_iff)
  have "dropWhile isWhiteSpace s = []"
  proof (cases "dropWhile isWhiteSpace s")
    case Nil
    then show ?thesis .
  next
    case (Cons c cs)
    then have "\<not> isWhiteSpace c" by (metis hd_dropWhile list.sel(1) list.distinct(1))
    moreover have "isWhiteSpace c" using a Cons by simp
    ultimately show ?thesis by simp
  qed
  then show ?thesis by (rule dropWhile_Nil_all)
qed

lemma required_implies_bad_format:
  assumes "username = [] \<or> length (trim username) = 0"
  shows "\<not> (2 \<le> length username \<and> list_all isUsernameChar username)"
proof
  assume f: "2 \<le> length username \<and> list_all isUsernameChar username"
  then obtain c cs where u: "username = c # cs" by (cases username) auto
  with assms have "trim username = []" by simp
  then have "list_all isWhiteSpace username" by (rule trim_empty)
  then have "isWhiteSpace c" using u by simp
  moreover have "isUsernameChar c" using f u by simp
  ultimately show False using whitespace_not_username by blast
qed

lemma find_None_list_ex: "find P xs = None \<longleftrightarrow> \<not> list_ex P xs"
  by (auto simp: find_None_iff list_ex_iff)

text \<open>
  C9 (amended). \<^verbatim>\<open>validateUsername\<close> accepts a name exactly when it has 2 to 20
  characters, all of them letters, digits, underscore or dash, and no user in the
  registry, whatever its status, has the same name under \<^verbatim>\<open>toLowerCase\<close>. So it rejects
  every empty, too short, too long or pattern-violating name and every name used by an
  online user, and it also rejects the name of a user who has gone offline: users are
  never removed from the registry and the check does not look at the status.
\<close>

theorem validateUsername_characterisation:
  "(valid (validateUsername st username) \<longleftrightarrow>
      2 \<le> length username \<and> length username \<le> 20 \<and> list_all isUsernameChar username \<and>
      \<not> list_ex (\<lambda>u. toLowerCase (user_username u) = toLowerCase username) (getAllUsers st)) \<and>
   (list_ex (\<lambda>u. toLowerCase (user_username u) = toLowerCase username) (getOnlineUsers st) \<longrightarrow>
      \<not> valid (validateUsername st username))"
proof -
  let ?taken = "list_ex (\<lambda>u. toLowerCase (user_username u) = toLowerCase username) (getAllUsers st)"
  have main: "valid (validateUsername st username) \<longleftrightarrow>
      2 \<le> length username \<and> length username \<le> 20 \<and> list_all isUsernameChar username \<and> \<not> ?taken"
  proof (cases "username = [] \<or> length (trim username) = 0")
    case True
    then have "\<not> valid (validateUsername st username)" by (simp add: validateUsername_def)
    then show ?thesis using required_implies_bad_format[OF True] by blast
  next
    case req: False
    show ?thesis
    proof (cases "length username < 2 \<or> length username > 20")
      case True
      then have "\<not> valid (validateUsername st username)" using req by (simp add: validateUsername_def)
      then show ?thesis using True by auto
    next
      case len: False
      show ?thesis
      proof (cases "usernamePatternTest username")
        case False
        then have "\<not> valid (validateUsername st username)"
          using req len by (simp add: validateUsername_def)
        moreover have "\<not> list_all isUsernameChar username"
          using False req by (simp add: usernamePatternTest_def)
        ultimately show ?thesis by blast
      next
        case True
        then have pat: "list_all isUsernameChar username" by (simp add: usernamePatternTest_def)
        have "valid (validateUsername st username) \<longleftrightarrow>
                find (\<lambda>u. toLowerCase (user_username u) = toLowerCase username) (map snd (sm_users st)) = None"
          using req len True by (simp add: validateUsername_def split: option.splits)
        then have "valid (validateUsername st username) \<longleftrightarrow> \<not> ?taken"
          unfolding find_None_list_ex getAllUsers_def .
        then show ?thesis using len pat by auto
      qed
    qed
  qed
  have sub: "set (getOnlineUsers st) \<subseteq> set (getAllUsers st)"
    by (auto simp: getOnlineUsers_def getAllUsers_def)
  have online: "list_ex (\<lambda>u. toLowerCase (user_username u) = toLowerCase username) (getOnlineUsers st) \<longrightarrow>
      \<not> valid (validateUsername st username)"
  proof
    assume "list_ex (\<lambda>u. toLowerCase (user_username u) = toLowerCase username) (getOnlineUsers st)"
    then have ?taken using sub unfolding list_ex_iff by blast
    then show "\<not> valid (validateUsername st username)" using main by blast
  qed
  show ?thesis using main online by (rule conjI)
qed

theorem validateUsername_characterisation_witness:
  "valid (validateUsername bobLeft ''bobby-1_X'') \<and>
   \<not> valid (validateUsername bobLeft ''b'') \<and>
   \<not> valid (validateUsername bobLeft ''bo b'') \<and>
   \<not> valid (validateUsername bobLeft ''BOB'')"
proof -
  have a: "2 \<le> length ''bobby-1_X'' \<and> length ''bobby-1_X'' \<le> 20 \<and> list_all isUsernameChar ''bobby-1_X'' \<and>
      \<not> list_ex (\<lambda>u. toLowerCase (user_username u) = toLowerCase ''bobby-1_X'') (getAllUsers bobLeft)"
    by code_simp
  have b: "\<not> 2 \<le> length ''b''" by simp
  have c: "\<not> list_all isUsernameChar ''bo b''" by code_simp
  have d: "list_ex (\<lambda>u. toLowerCase (user_username u) = toLowerCase ''BOB'') (getAllUsers bobLeft)"
    by code_simp
  from validateUsername_characterisation[where st = bobLeft and username = "''bobby-1_X''"] a
  have 1: "valid (validateUsername bobLeft ''bobby-1_X'')" by blast
  from validateUsername_characterisation[where st = bobLeft and username = "''b''"] b
  have 2: "\<not> valid (validateUsername bobLeft ''b'')" by blast
  from validateUsername_characterisation[where st = bobLeft and username = "''bo b''"] c
  have 3: "\<not> valid (validateUsername bobLeft ''bo b'')" by blast
  from validateUsername_characterisation[where st = bobLeft and username = "''BOB''"] d
  have 4: "\<not> valid (validateUsername bobLeft ''BOB'')" by blast
  show ?thesis using 1 2 3 4 by (intro conjI)
qed

theorem validateUsername_counterexample:
  "map user_status (getAllUsers bobLeft) = [Offline] \<and>
   getOnlineUsers bobLeft = [] \<and>
   length ''bob'' = 3 \<and> usernamePatternTest ''bob'' \<and>
   validateUsername bobLeft ''bob'' = \<lparr>valid = False, verror = Some ''Username already taken''\<rparr>"
  by code_simp

subsection \<open>ChatManager: the hypotheses hold in reachable states\<close>

text \<open>
  The hypotheses of the ChatManager theorems hold in every state the server reaches: the
  constructor yields a well-formed, consistent registry with no typing indicator;
  \<^verbatim>\<open>createUser\<close> does not touch rooms or sessions; \<^verbatim>\<open>createSession\<close> with a fresh session id
  for a user that has no session yet keeps the registry well formed and consistent; and
  the typing operations keep the keys of the indicator map unique.
\<close>

lemma update_fresh: "k \<notin> fst ` set al \<Longrightarrow> AList.update k v al = al @ [(k, v)]"
  by (induction al) auto

lemma newChatManager_inv: "registry_ok (newChatManager now) \<and> membership_consistent (newChatManager now)"
  by (simp add: registry_ok_def membership_consistent_def sessionUsersIn_def newChatManager_def
        createDefaultRooms_def)

lemma createUser_inv:
  "registry_ok (fst (createUser uuid now st username isGuest)) = registry_ok st \<and>
   membership_consistent (fst (createUser uuid now st username isGuest)) = membership_consistent st"
  by (simp add: createUser_def Let_def registry_ok_def membership_consistent_def sessionUsersIn_def)

lemma createSession_inv:
  assumes "registry_ok st" "membership_consistent st"
    and fresh: "uuid \<notin> fst ` set (chat_sessions st)"
    and newuser: "userId \<notin> (\<lambda>(sessionId, session). cs_userId session) ` set (chat_sessions st)"
  shows "registry_ok (fst (createSession uuid st userId username ws isGuest)) \<and>
         membership_consistent (fst (createSession uuid st userId username ws isGuest))"
proof -
  let ?s = "\<lparr>cs_id = uuid, cs_userId = userId, cs_username = username, cs_ws = ws,
               cs_currentRoom = None, cs_isGuest = isGuest\<rparr>"
  have st': "fst (createSession uuid st userId username ws isGuest) =
               st\<lparr>chat_sessions := chat_sessions st @ [(uuid, ?s)]\<rparr>"
    by (simp add: createSession_def Let_def update_fresh[OF fresh])
  have r: "registry_ok (st\<lparr>chat_sessions := chat_sessions st @ [(uuid, ?s)]\<rparr>)"
    using assms(1) fresh newuser by (simp add: registry_ok_def)
  have u: "sessionUsersIn (st\<lparr>chat_sessions := chat_sessions st @ [(uuid, ?s)]\<rparr>) r = sessionUsersIn st r" for r
    by (simp add: sessionUsersIn_def)
  have m: "membership_consistent (st\<lparr>chat_sessions := chat_sessions st @ [(uuid, ?s)]\<rparr>)"
    using assms(2) by (simp add: membership_consistent_def u)
  show ?thesis unfolding st' using r m by (rule conjI)
qed

lemma typingIndicators_distinct:
  "distinct (map fst (chat_typingIndicators (newChatManager now)))"
  "distinct (map fst (chat_typingIndicators st)) \<Longrightarrow>
     distinct (map fst (chat_typingIndicators (fst (startTyping now st sid rid))))"
  "distinct (map fst (chat_typingIndicators st)) \<Longrightarrow>
     distinct (map fst (chat_typingIndicators (fst (stopTyping now st sid rid))))"
  "distinct (map fst (chat_typingIndicators st)) \<Longrightarrow>
     distinct (map fst (chat_typingIndicators (fst (typingCleanupTick now st))))"
proof -
  show "distinct (map fst (chat_typingIndicators (newChatManager now)))"
    by (simp add: newChatManager_def)
  show "distinct (map fst (chat_typingIndicators (fst (startTyping now st sid rid))))"
    if "distinct (map fst (chat_typingIndicators st))"
    using that by (cases "map_of (chat_sessions st) sid") (simp_all add: startTyping_def Let_def distinct_update)
  show "distinct (map fst (chat_typingIndicators (fst (stopTyping now st sid rid))))"
    if "distinct (map fst (chat_typingIndicators st))"
    using that by (cases "map_of (chat_sessions st) sid") (simp_all add: stopTyping_def Let_def distinct_delete)
  show "distinct (map fst (chat_typingIndicators (fst (typingCleanupTick now st))))"
    if "distinct (map fst (chat_typingIndicators st))"
    unfolding typingCleanupTick_eq[OF that] using that by (simp add: distinct_map_filter)
qed

subsection \<open>MessageStore: effects of the operations and the life of a message id\<close>

lemma evictIndex_dom: "dom (evictIndex I ms) = dom I - msg_id ` set ms"
  by (auto simp: evictIndex_def dom_def split: if_splits)

lemma evictIndex_apply:
  "evictIndex I ms i = (if i \<in> msg_id ` set ms then None else I i)"
  by (simp add: evictIndex_def)

lemma index_cleanup:
  "map_of (ms_messageIndex (cleanupOldMessages st r n)) =
     evictIndex (map_of (ms_messageIndex st)) (evictedMessages st r n)"
proof (cases "\<exists>hs. map_of (ms_messages st) r = Some hs \<and> length hs > n")
  case False
  then have same: "cleanupOldMessages st r n = st"
    by (intro cleanupOldMessages_same) (cases "map_of (ms_messages st) r", auto)
  have "evictedMessages st r n = []"
    using False by (cases "map_of (ms_messages st) r") (auto simp: evictedMessages_def)
  then show ?thesis unfolding same by (simp add: evictIndex_Nil)
next
  case True
  then obtain hs where hs: "map_of (ms_messages st) r = Some hs" "length hs > n" by blast
  have e: "evictedMessages st r n = take (length hs - n) hs"
    using hs by (simp add: evictedMessages_def)
  show ?thesis
    unfolding cleanupOldMessages_evict[OF hs] e by (simp add: map_of_fold_delete)
qed

lemma getMessage_cleanup:
  "getMessage (cleanupOldMessages st r n) i =
     (if i \<in> msg_id ` set (evictedMessages st r n) then None else getMessage st i)"
  unfolding getMessage_def index_cleanup evictIndex_apply ..

lemma evictedMessages_history:
  "evictedMessages st r n = take (length (roomHistory st r) - n) (roomHistory st r)"
  by (cases "map_of (ms_messages st) r") (auto simp: evictedMessages_def roomHistory_def)

lemma evicted_pushed_subset:
  "set (evictedMessages (pushed uuid now st roomId userId content type replyTo) roomId defaultMaxMessages)
     \<subseteq> set (roomHistory st roomId)"
proof -
  let ?h = "roomHistory st roomId"
  have k: "Suc (length ?h) - defaultMaxMessages \<le> length ?h"
    by (simp add: defaultMaxMessages_def)
  have "set (take (Suc (length ?h) - defaultMaxMessages) (?h @ [m])) \<subseteq> set ?h" for m :: Message
    using k by (simp add: set_take_subset)
  then show ?thesis
    unfolding evictedMessages_history roomHistory_pushed by simp
qed

lemma index_pushed:
  "map_of (ms_messageIndex (pushed uuid now st roomId userId content type replyTo)) =
     (map_of (ms_messageIndex st))
       (uuid \<mapsto> \<lparr>msg_id = uuid, msg_roomId = roomId, msg_userId = userId, msg_content = content,
                   msg_type = type, msg_timestamp = now, msg_replyTo = replyTo,
                   msg_reactions = [], msg_edited = None\<rparr>)"
  unfolding pushed_def by (simp add: update_conv')

lemma getMessage_addMessage:
  "getMessage (fst (addMessage uuid now st roomId userId content type replyTo)) i =
     (if i \<in> msg_id ` set (evictedMessages (pushed uuid now st roomId userId content type replyTo)
                             roomId defaultMaxMessages)
      then None
      else if i = uuid then Some (snd (addMessage uuid now st roomId userId content type replyTo))
      else getMessage st i)"
  unfolding addMessage_eq fst_conv snd_conv getMessage_cleanup
  unfolding getMessage_def index_pushed by simp

lemma history_ids_indexed:
  assumes inv: "store_inv st" and m: "m \<in> set (roomHistory st r)"
  shows "map_of (ms_messageIndex st) (msg_id m) = Some m"
proof (cases "map_of (ms_messages st) r")
  case None
  then show ?thesis using m by (simp add: roomHistory_def)
next
  case (Some hs)
  then have "m \<in> set hs" using m by (simp add: roomHistory_def)
  from hist_okD(2)[OF store_invD(3)[OF inv] Some this] show ?thesis .
qed

lemma fresh_not_evicted:
  assumes inv: "store_inv st" and fresh: "map_of (ms_messageIndex st) uuid = None"
  shows "uuid \<notin> msg_id ` set (evictedMessages (pushed uuid now st roomId userId content type replyTo)
                                 roomId defaultMaxMessages)"
proof
  assume "uuid \<in> msg_id ` set (evictedMessages (pushed uuid now st roomId userId content type replyTo)
                                 roomId defaultMaxMessages)"
  then obtain m where m: "m \<in> set (roomHistory st roomId)" "msg_id m = uuid"
    using evicted_pushed_subset[of uuid now st roomId userId content type replyTo] by auto
  from history_ids_indexed[OF inv m(1)] fresh m(2) show False by simp
qed

lemma addMessage_found:
  assumes inv: "store_inv st" and fresh: "map_of (ms_messageIndex st) uuid = None"
  shows "getMessage (fst (addMessage uuid now st roomId userId content type replyTo)) uuid =
           Some (snd (addMessage uuid now st roomId userId content type replyTo))"
  unfolding getMessage_addMessage using fresh_not_evicted[OF inv fresh] by simp

lemma addMessage_in_history:
  "snd (addMessage uuid now st roomId userId content type replyTo) \<in>
     set (roomHistory (fst (addMessage uuid now st roomId userId content type replyTo)) roomId)"
proof -
  have "m \<in> set (slice_last defaultMaxMessages (h @ [m]))" for m :: Message and h
  proof -
    have "Suc (length h) - defaultMaxMessages \<le> length h" by (simp add: defaultMaxMessages_def)
    then have "slice_last defaultMaxMessages (h @ [m]) = drop (Suc (length h) - defaultMaxMessages) h @ [m]"
      by (simp add: slice_last_def)
    then show ?thesis by simp
  qed
  then show ?thesis unfolding roomHistory_addMessage by simp
qed

lemma deleteMessage_success_iff:
  "success (snd (deleteMessage st mid uid isMod)) \<longleftrightarrow>
     (case getMessage st mid of None \<Rightarrow> False | Some msg \<Rightarrow> isMod \<or> msg_userId msg = uid)"
  unfolding deleteMessage_def getMessage_def Let_def
  by (cases "map_of (ms_messageIndex st) mid") (simp_all only: option.case, auto)

lemma deleteMessage_refused:
  assumes "\<not> success (snd (deleteMessage st mid uid isMod))"
  shows "fst (deleteMessage st mid uid isMod) = st"
  using assms unfolding deleteMessage_def Let_def
  by (cases "map_of (ms_messageIndex st) mid") (auto split: if_splits)

lemma deleteMessage_index:
  assumes "success (snd (deleteMessage st mid uid isMod))"
  shows "ms_messageIndex (fst (deleteMessage st mid uid isMod)) = AList.delete mid (ms_messageIndex st)"
  using assms unfolding deleteMessage_def Let_def
  by (cases "map_of (ms_messageIndex st) mid") (auto split: if_splits)

lemma getMessage_deleteMessage:
  assumes "success (snd (deleteMessage st mid uid isMod))"
  shows "getMessage (fst (deleteMessage st mid uid isMod)) i = (if i = mid then None else getMessage st i)"
  unfolding getMessage_def deleteMessage_index[OF assms] delete_conv' by simp

lemma deleteMessage_history:
  assumes inv: "store_inv st" and s: "success (snd (deleteMessage st mid uid isMod))"
  shows "roomHistory (fst (deleteMessage st mid uid isMod)) r =
           filter (\<lambda>m. msg_id m \<noteq> mid) (roomHistory st r)"
proof -
  note D = store_invD[OF inv]
  from s obtain msg where msg: "map_of (ms_messageIndex st) mid = Some msg"
    and auth: "isMod \<or> msg_userId msg = uid"
    unfolding deleteMessage_success_iff getMessage_def
    by (cases "map_of (ms_messageIndex st) mid") auto
  from index_okD[OF D(4) msg] obtain hs where
    hs: "msg_id msg = mid" "map_of (ms_messages st) (msg_roomId msg) = Some hs" "msg \<in> set hs" by blast
  have eq: "ms_messages (fst (deleteMessage st mid uid isMod)) =
              AList.update (msg_roomId msg) (removeFirstWithId mid hs) (ms_messages st)"
    using msg auth hs(2) unfolding deleteMessage_def Let_def by auto
  have d: "distinct (map msg_id hs)" using D(3) hs(2) unfolding hist_ok_def by blast
  have rf: "removeFirstWithId mid hs = filter (\<lambda>m. msg_id m \<noteq> mid) hs" by (rule removeFirst_filter[OF d])
  show ?thesis
  proof (cases "r = msg_roomId msg")
    case True
    show ?thesis
      unfolding roomHistory_def eq update_conv' using True hs(2) rf by simp
  next
    case False
    have "filter (\<lambda>m. msg_id m \<noteq> mid) (roomHistory st r) = roomHistory st r"
    proof (rule filter_True, rule ballI)
      fix m assume m: "m \<in> set (roomHistory st r)"
      show "msg_id m \<noteq> mid"
      proof
        assume e: "msg_id m = mid"
        from m obtain h' where h': "map_of (ms_messages st) r = Some h'" "m \<in> set h'"
          by (cases "map_of (ms_messages st) r") (auto simp: roomHistory_def)
        have "msg_id m = msg_id msg" using e hs(1) by simp
        from hist_index_unique[OF D(3) h' hs(2,3) this] False show False by blast
      qed
    qed
    then show ?thesis
      unfolding roomHistory_def eq update_conv' using False by simp
  qed
qed

lemma dom_index_applyOp:
  "dom (map_of (ms_messageIndex (applyOp st opn))) =
     (dom (map_of (ms_messageIndex st)) \<union> set (addedBy opn)) -
     (set (deletedBy st opn) \<union> set (evictedBy st opn))"
proof (cases opn)
  case (AddOp x)
  have "map_of (ms_messageIndex (applyOp st (AddOp x))) =
          evictIndex ((map_of (ms_messageIndex st))(nm_uuid x \<mapsto> mkMessage x))
            (evictedMessages (pushed (nm_uuid x) (nm_now x) st (nm_roomId x) (nm_userId x)
               (nm_content x) (nm_type x) (nm_replyTo x)) (nm_roomId x) defaultMaxMessages)"
    unfolding applyOp.simps addMessage_eq fst_conv index_cleanup index_pushed mkMessage_def ..
  then show ?thesis unfolding AddOp by (simp add: evictIndex_dom)
next
  case (DeleteOp mid uid isMod)
  show ?thesis
  proof (cases "success (snd (deleteMessage st mid uid isMod))")
    case True
    then have "mid \<in> dom (map_of (ms_messageIndex st))"
      unfolding deleteMessage_success_iff getMessage_def
      by (cases "map_of (ms_messageIndex st) mid") auto
    then show ?thesis
      unfolding DeleteOp using True by (simp add: deleteMessage_index delete_conv')
  next
    case False
    then show ?thesis unfolding DeleteOp by (simp add: deleteMessage_refused)
  qed
qed

lemma removed_were_present:
  assumes inv: "store_inv st"
  shows "set (deletedBy st opn) \<union> set (evictedBy st opn) \<subseteq>
           dom (map_of (ms_messageIndex st)) \<union> set (addedBy opn)"
proof (cases opn)
  case (AddOp x)
  have "i \<in> dom (map_of (ms_messageIndex st))"
    if "i \<in> msg_id ` set (evictedMessages (pushed (nm_uuid x) (nm_now x) st (nm_roomId x) (nm_userId x)
               (nm_content x) (nm_type x) (nm_replyTo x)) (nm_roomId x) defaultMaxMessages)" for i
  proof -
    from that obtain m where m: "m \<in> set (roomHistory st (nm_roomId x))" "msg_id m = i"
      using evicted_pushed_subset[of "nm_uuid x" "nm_now x" st "nm_roomId x" "nm_userId x"
              "nm_content x" "nm_type x" "nm_replyTo x"] by auto
    from history_ids_indexed[OF inv m(1)] m(2) show ?thesis by auto
  qed
  then show ?thesis unfolding AddOp by auto
next
  case (DeleteOp mid uid isMod)
  show ?thesis
  proof (cases "success (snd (deleteMessage st mid uid isMod))")
    case True
    then have "mid \<in> dom (map_of (ms_messageIndex st))"
      unfolding deleteMessage_success_iff getMessage_def
      by (cases "map_of (ms_messageIndex st) mid") auto
    then show ?thesis unfolding DeleteOp using True by simp
  next
    case False
    then show ?thesis unfolding DeleteOp by simp
  qed
qed

lemma applyOp_inv:
  assumes inv: "store_inv st"
    and fresh: "set (addedBy opn) \<inter> dom (map_of (ms_messageIndex st)) = {}"
  shows "store_inv (applyOp st opn)"
proof (cases opn)
  case (AddOp x)
  have "map_of (ms_messageIndex st) (nm_uuid x) = None"
    using fresh unfolding AddOp by (cases "map_of (ms_messageIndex st) (nm_uuid x)") auto
  then show ?thesis unfolding AddOp applyOp.simps by (rule addMessage_inv[OF inv])
next
  case (DeleteOp mid uid isMod)
  show ?thesis unfolding DeleteOp applyOp.simps by (rule deleteMessage_inv[OF inv])
qed

lemma runOps_trace:
  assumes "store_inv st" "distinct (addedIds ops)"
    "set (addedIds ops) \<inter> dom (map_of (ms_messageIndex st)) = {}"
  shows "store_inv (runOps st ops) \<and>
         dom (map_of (ms_messageIndex (runOps st ops))) =
           (dom (map_of (ms_messageIndex st)) \<union> set (addedIds ops)) -
           (set (deletedIds st ops) \<union> set (evictedIds st ops))"
  using assms
proof (induction ops arbitrary: st)
  case Nil
  then show ?case by simp
next
  case (Cons opn ops)
  let ?D = "dom (map_of (ms_messageIndex st))"
  let ?A0 = "set (addedBy opn)"
  let ?X0 = "set (deletedBy st opn) \<union> set (evictedBy st opn)"
  let ?st1 = "applyOp st opn"
  from Cons.prems(2) have dA: "distinct (addedIds ops)" and disj0: "?A0 \<inter> set (addedIds ops) = {}"
    by auto
  from Cons.prems(3) have f0: "?A0 \<inter> ?D = {}" and fr: "set (addedIds ops) \<inter> ?D = {}" by auto
  have inv1: "store_inv ?st1" by (rule applyOp_inv[OF Cons.prems(1) f0])
  have D1: "dom (map_of (ms_messageIndex ?st1)) = (?D \<union> ?A0) - ?X0" by (rule dom_index_applyOp)
  have X0: "?X0 \<subseteq> ?D \<union> ?A0" by (rule removed_were_present[OF Cons.prems(1)])
  have fr1: "set (addedIds ops) \<inter> dom (map_of (ms_messageIndex ?st1)) = {}"
    unfolding D1 using fr disj0 by blast
  note IH = Cons.IH[OF inv1 dA fr1]
  have "dom (map_of (ms_messageIndex (runOps ?st1 ops))) =
          (((?D \<union> ?A0) - ?X0) \<union> set (addedIds ops)) -
          (set (deletedIds ?st1 ops) \<union> set (evictedIds ?st1 ops))"
    using IH D1 by simp
  also have "\<dots> = (?D \<union> (?A0 \<union> set (addedIds ops))) -
          (?X0 \<union> (set (deletedIds ?st1 ops) \<union> set (evictedIds ?st1 ops)))"
    using X0 fr disj0 by blast
  finally have "dom (map_of (ms_messageIndex (runOps ?st1 ops))) =
          (?D \<union> (?A0 \<union> set (addedIds ops))) -
          (?X0 \<union> (set (deletedIds ?st1 ops) \<union> set (evictedIds ?st1 ops)))" .
  then have "dom (map_of (ms_messageIndex (runOps st (opn # ops)))) =
           (?D \<union> set (addedIds (opn # ops))) -
           (set (deletedIds st (opn # ops)) \<union> set (evictedIds st (opn # ops)))"
    by (simp add: Un_ac)
  moreover have "store_inv (runOps st (opn # ops))" using IH by simp
  ultimately show ?case by (rule conjI[rotated])
qed

lemma runOps_new:
  assumes "distinct (addedIds ops)"
  shows "store_inv (runOps newMessageStore ops) \<and>
         (getMessage (runOps newMessageStore ops) i = None \<longleftrightarrow>
            i \<notin> set (addedIds ops) \<or> i \<in> set (deletedIds newMessageStore ops) \<or>
            i \<in> set (evictedIds newMessageStore ops))"
proof -
  have e: "dom (map_of (ms_messageIndex newMessageStore)) = {}" by (simp add: newMessageStore_def)
  then have "set (addedIds ops) \<inter> dom (map_of (ms_messageIndex newMessageStore)) = {}" by simp
  from runOps_trace[OF newMessageStore_inv assms this]
  have inv: "store_inv (runOps newMessageStore ops)"
    and d: "dom (map_of (ms_messageIndex (runOps newMessageStore ops))) =
           set (addedIds ops) - (set (deletedIds newMessageStore ops) \<union> set (evictedIds newMessageStore ops))"
    unfolding e by simp_all
  have "getMessage (runOps newMessageStore ops) i = None \<longleftrightarrow>
          i \<notin> dom (map_of (ms_messageIndex (runOps newMessageStore ops)))"
    unfolding getMessage_def by (simp add: domIff)
  then have "getMessage (runOps newMessageStore ops) i = None \<longleftrightarrow>
            i \<notin> set (addedIds ops) \<or> i \<in> set (deletedIds newMessageStore ops) \<or>
            i \<in> set (evictedIds newMessageStore ops)"
    unfolding d by blast
  with inv show ?thesis by (rule conjI)
qed

lemma runOps_adds: "runOps st (map AddOp xs) = addMessages st xs"
  by (induction xs arbitrary: st) simp_all

lemma addedIds_adds: "addedIds (map AddOp xs) = map nm_uuid xs"
  by (induction xs) simp_all

lemma manyMessages_ids:
  "map nm_uuid manyMessages = map (\<lambda>n. replicate (Suc n) CHR ''m'') [0..<1001]"
  by (simp add: manyMessages_def o_def)

lemma manyMessages_distinct: "distinct (map nm_uuid manyMessages)"
proof -
  have "inj_on (\<lambda>n. replicate (Suc n) CHR ''m'') (set [0..<1001])"
  proof (rule inj_onI)
    fix a b :: nat
    assume "replicate (Suc a) CHR ''m'' = replicate (Suc b) CHR ''m''"
    then have "length (replicate (Suc a) CHR ''m'') = length (replicate (Suc b) CHR ''m'')"
      by (rule arg_cong)
    then show "a = b" by simp
  qed
  then show ?thesis unfolding manyMessages_ids by (simp add: distinct_map)
qed

lemma manyMessages_general: "filter (\<lambda>x. nm_roomId x = ''general'') manyMessages = manyMessages"
  by (simp add: manyMessages_def filter_map o_def)

lemma manyMessages_other:
  "r \<noteq> ''general'' \<Longrightarrow> filter (\<lambda>x. nm_roomId x = r) manyMessages = []"
  by (simp add: manyMessages_def filter_map o_def)

lemma manyMessages_tail_ids:
  "''m'' \<notin> msg_id ` set (tl (map mkMessage manyMessages))"
proof -
  let ?f = "\<lambda>n. replicate (Suc n) CHR ''m''"
  have "map msg_id (map mkMessage manyMessages) = map nm_uuid manyMessages"
    by (simp add: mkMessage_def o_def)
  then have a: "map msg_id (map mkMessage manyMessages) = map ?f [0..<1001]"
    by (simp only: manyMessages_ids)
  have "map msg_id (tl (map mkMessage manyMessages)) = tl (map msg_id (map mkMessage manyMessages))"
    by (rule map_tl)
  also have "\<dots> = tl (map ?f [0..<1001])" by (simp only: a)
  also have "\<dots> = map ?f (tl [0..<1001])" by (rule map_tl[symmetric])
  also have "\<dots> = map ?f [Suc 0..<1001]" by (simp only: tl_upt)
  finally have e: "map msg_id (tl (map mkMessage manyMessages)) = map ?f [Suc 0..<1001]" .
  have "''m'' \<notin> set (map ?f [Suc 0..<1001])"
  proof
    assume "''m'' \<in> set (map ?f [Suc 0..<1001])"
    then obtain n where n: "Suc 0 \<le> n" "''m'' = ?f n" by auto
    from n(2) have "length ''m'' = length (?f n)" by (rule arg_cong)
    with n(1) show False by simp
  qed
  then have "''m'' \<notin> set (map msg_id (tl (map mkMessage manyMessages)))" unfolding e .
  then show ?thesis unfolding set_map .
qed

text \<open>
  C10. \<^verbatim>\<open>MessageStore\<close> keeps its index and its histories consistent. The invariant
  \<open>store_inv\<close> says: the ids within a history are distinct, every message of a room's
  history is the index entry of its id and carries that room's id, and every index entry
  is a message with that id lying in the history of its room. It holds for the empty
  store and is preserved by \<^verbatim>\<open>addMessage\<close> (with an id not in use), \<^verbatim>\<open>deleteMessage\<close> and
  \<^verbatim>\<open>cleanupOldMessages\<close>, whose effects are these:
  \<^item> \<^verbatim>\<open>addMessage\<close> puts the new message in its room's history and makes \<^verbatim>\<open>getMessage\<close>
    return it; the ids of the messages its cleanup removed are no longer found, and
    every other id is found as before;
  \<^item> \<^verbatim>\<open>deleteMessage\<close> succeeds exactly for a message that is found and is the
    requester's own or deleted by a moderator; a refused call changes nothing, a
    successful one makes the id unfound, leaves every other id as it was, and removes
    the message with that id from the histories;
  \<^item> \<^verbatim>\<open>cleanupOldMessages\<close> keeps the last \<open>maxMessages\<close> messages of the room and makes
    exactly the ids of the messages it dropped unfound.

  Hence \<^verbatim>\<open>getMessage(id)\<close> is \<^verbatim>\<open>null\<close> exactly when no history holds a message with that
  id, and, for every sequence of additions (with pairwise distinct ids, as
  \<^verbatim>\<open>crypto.randomUUID\<close> gives) and deletions run on the empty store, exactly when the id
  was never added, or was deleted by a successful \<^verbatim>\<open>deleteMessage\<close>, or was evicted by the
  history cap.
\<close>

theorem message_index_consistency:
  "store_inv newMessageStore \<and>
   (store_inv st \<and> map_of (ms_messageIndex st) uuid = None \<longrightarrow>
      store_inv (fst (addMessage uuid now st roomId userId content type replyTo)) \<and>
      getMessage (fst (addMessage uuid now st roomId userId content type replyTo)) uuid =
        Some (snd (addMessage uuid now st roomId userId content type replyTo))) \<and>
   snd (addMessage uuid now st roomId userId content type replyTo) \<in>
     set (roomHistory (fst (addMessage uuid now st roomId userId content type replyTo)) roomId) \<and>
   getMessage (fst (addMessage uuid now st roomId userId content type replyTo)) messageId =
     (if messageId \<in> msg_id ` set (evictedMessages
                        (pushed uuid now st roomId userId content type replyTo) roomId defaultMaxMessages)
      then None
      else if messageId = uuid then Some (snd (addMessage uuid now st roomId userId content type replyTo))
      else getMessage st messageId) \<and>
   (success (snd (deleteMessage st messageId requesterId isModeratorAction)) \<longleftrightarrow>
      (case getMessage st messageId of
         None \<Rightarrow> False
       | Some msg \<Rightarrow> isModeratorAction \<or> msg_userId msg = requesterId)) \<and>
   (\<not> success (snd (deleteMessage st messageId requesterId isModeratorAction)) \<longrightarrow>
      fst (deleteMessage st messageId requesterId isModeratorAction) = st) \<and>
   (success (snd (deleteMessage st messageId requesterId isModeratorAction)) \<longrightarrow>
      (\<forall>i. getMessage (fst (deleteMessage st messageId requesterId isModeratorAction)) i =
             (if i = messageId then None else getMessage st i))) \<and>
   (store_inv st \<longrightarrow> store_inv (fst (deleteMessage st messageId requesterId isModeratorAction))) \<and>
   (store_inv st \<and> success (snd (deleteMessage st messageId requesterId isModeratorAction)) \<longrightarrow>
      (\<forall>r. roomHistory (fst (deleteMessage st messageId requesterId isModeratorAction)) r =
             filter (\<lambda>m. msg_id m \<noteq> messageId) (roomHistory st r))) \<and>
   (store_inv st \<longrightarrow> store_inv (cleanupOldMessages st roomId maxMessages)) \<and>
   roomHistory (cleanupOldMessages st roomId maxMessages) roomId =
     drop (length (roomHistory st roomId) - maxMessages) (roomHistory st roomId) \<and>
   evictedMessages st roomId maxMessages =
     take (length (roomHistory st roomId) - maxMessages) (roomHistory st roomId) \<and>
   getMessage (cleanupOldMessages st roomId maxMessages) messageId =
     (if messageId \<in> msg_id ` set (evictedMessages st roomId maxMessages) then None
      else getMessage st messageId) \<and>
   (store_inv st \<longrightarrow>
      (getMessage st messageId = None \<longleftrightarrow>
         (\<forall>(r, history) \<in> set (ms_messages st). messageId \<notin> msg_id ` set history))) \<and>
   (distinct (addedIds ops) \<longrightarrow>
      store_inv (runOps newMessageStore ops) \<and>
      (getMessage (runOps newMessageStore ops) messageId = None \<longleftrightarrow>
         messageId \<notin> set (addedIds ops) \<or> messageId \<in> set (deletedIds newMessageStore ops) \<or>
         messageId \<in> set (evictedIds newMessageStore ops)))"
proof -
  have a: "store_inv st \<and> map_of (ms_messageIndex st) uuid = None \<longrightarrow>
      store_inv (fst (addMessage uuid now st roomId userId content type replyTo)) \<and>
      getMessage (fst (addMessage uuid now st roomId userId content type replyTo)) uuid =
        Some (snd (addMessage uuid now st roomId userId content type replyTo))"
    using addMessage_inv addMessage_found by blast
  have a2: "snd (addMessage uuid now st roomId userId content type replyTo) \<in>
     set (roomHistory (fst (addMessage uuid now st roomId userId content type replyTo)) roomId)"
    by (rule addMessage_in_history)
  have a3: "getMessage (fst (addMessage uuid now st roomId userId content type replyTo)) messageId =
     (if messageId \<in> msg_id ` set (evictedMessages
                        (pushed uuid now st roomId userId content type replyTo) roomId defaultMaxMessages)
      then None
      else if messageId = uuid then Some (snd (addMessage uuid now st roomId userId content type replyTo))
      else getMessage st messageId)"
    by (rule getMessage_addMessage)
  have b1: "success (snd (deleteMessage st messageId requesterId isModeratorAction)) \<longleftrightarrow>
      (case getMessage st messageId of
         None \<Rightarrow> False
       | Some msg \<Rightarrow> isModeratorAction \<or> msg_userId msg = requesterId)"
    by (rule deleteMessage_success_iff)
  have b2: "\<not> success (snd (deleteMessage st messageId requesterId isModeratorAction)) \<longrightarrow>
      fst (deleteMessage st messageId requesterId isModeratorAction) = st"
    using deleteMessage_refused by blast
  have b3: "success (snd (deleteMessage st messageId requesterId isModeratorAction)) \<longrightarrow>
      (\<forall>i. getMessage (fst (deleteMessage st messageId requesterId isModeratorAction)) i =
             (if i = messageId then None else getMessage st i))"
    using getMessage_deleteMessage by blast
  have b4: "store_inv st \<longrightarrow> store_inv (fst (deleteMessage st messageId requesterId isModeratorAction))"
    using deleteMessage_inv by blast
  have b5: "store_inv st \<and> success (snd (deleteMessage st messageId requesterId isModeratorAction)) \<longrightarrow>
      (\<forall>r. roomHistory (fst (deleteMessage st messageId requesterId isModeratorAction)) r =
             filter (\<lambda>m. msg_id m \<noteq> messageId) (roomHistory st r))"
    using deleteMessage_history by blast
  have c1: "store_inv st \<longrightarrow> store_inv (cleanupOldMessages st roomId maxMessages)"
    using cleanupOldMessages_inv by blast
  have c2: "roomHistory (cleanupOldMessages st roomId maxMessages) roomId =
     drop (length (roomHistory st roomId) - maxMessages) (roomHistory st roomId)"
    unfolding roomHistory_cleanup by (simp add: slice_last_def)
  have c3: "evictedMessages st roomId maxMessages =
     take (length (roomHistory st roomId) - maxMessages) (roomHistory st roomId)"
    by (rule evictedMessages_history)
  have c4: "getMessage (cleanupOldMessages st roomId maxMessages) messageId =
     (if messageId \<in> msg_id ` set (evictedMessages st roomId maxMessages) then None
      else getMessage st messageId)"
    by (rule getMessage_cleanup)
  have d: "store_inv st \<longrightarrow>
      (getMessage st messageId = None \<longleftrightarrow>
         (\<forall>(r, history) \<in> set (ms_messages st). messageId \<notin> msg_id ` set history))"
    using getMessage_None_iff by blast
  have e: "distinct (addedIds ops) \<longrightarrow>
      store_inv (runOps newMessageStore ops) \<and>
      (getMessage (runOps newMessageStore ops) messageId = None \<longleftrightarrow>
         messageId \<notin> set (addedIds ops) \<or> messageId \<in> set (deletedIds newMessageStore ops) \<or>
         messageId \<in> set (evictedIds newMessageStore ops))"
    using runOps_new by blast
  show ?thesis
    using newMessageStore_inv a a2 a3 b1 b2 b3 b4 b5 c1 c2 c3 c4 d e by (intro conjI)
qed

lemma manyMessages_history:
  "roomHistory (addMessages newMessageStore manyMessages) r =
     (if r = ''general'' then tl (map mkMessage manyMessages) else [])"
proof (cases "r = ''general''")
  case True
  have l: "length (map mkMessage manyMessages) = 1001" by (simp add: manyMessages_def)
  have "slice_last defaultMaxMessages (map mkMessage manyMessages) = drop 1 (map mkMessage manyMessages)"
    unfolding slice_last_def l defaultMaxMessages_def by simp
  then show ?thesis
    unfolding roomHistory_addMessages_new True manyMessages_general by (simp add: drop_Suc)
next
  case False
  then show ?thesis
    unfolding roomHistory_addMessages_new manyMessages_other[OF False] by (simp add: slice_last_def)
qed

lemma manyMessages_first_absent:
  assumes inv: "store_inv (addMessages newMessageStore manyMessages)"
    and rh: "(r, h) \<in> set (ms_messages (addMessages newMessageStore manyMessages))"
  shows "''m'' \<notin> msg_id ` set h"
proof -
  from store_invD(1)[OF inv] rh
  have "map_of (ms_messages (addMessages newMessageStore manyMessages)) r = Some h" by simp
  then have "roomHistory (addMessages newMessageStore manyMessages) r = h"
    by (simp add: roomHistory_def)
  then have h: "h = (if r = ''general'' then tl (map mkMessage manyMessages) else [])"
    unfolding manyMessages_history by (rule sym)
  show ?thesis
  proof (cases "r = ''general''")
    case True
    then show ?thesis using h manyMessages_tail_ids by simp
  next
    case False
    then show ?thesis using h by simp
  qed
qed

lemma deletedIds_adds: "deletedIds st (map AddOp xs) = []"
  by (induction xs arbitrary: st) simp_all

lemma manyMessages_first_added: "''m'' \<in> set (map nm_uuid manyMessages)"
proof -
  have "replicate (Suc 0) CHR ''m'' \<in> (\<lambda>n. replicate (Suc n) CHR ''m'') ` set [0..<1001]"
    by (rule imageI) simp
  then show ?thesis unfolding manyMessages_ids by simp
qed

theorem message_index_consistency_witness:
  "store_inv (runOps newMessageStore smallTrace) \<and>
   getMessage (runOps newMessageStore smallTrace) ''m1'' = None \<and>
   getMessage (runOps newMessageStore smallTrace) ''m2'' \<noteq> None \<and>
   getMessage (runOps newMessageStore smallTrace) ''m3'' = None \<and>
   getMessage (cleanupOldMessages twoMessages ''general'' 1) ''m1'' = None \<and>
   getMessage (cleanupOldMessages twoMessages ''general'' 1) ''m2'' \<noteq> None \<and>
   store_inv (runOps newMessageStore (map AddOp manyMessages)) \<and>
   getMessage (runOps newMessageStore (map AddOp manyMessages)) ''m'' = None \<and>
   ''m'' \<in> set (addedIds (map AddOp manyMessages)) \<and>
   ''m'' \<in> set (evictedIds newMessageStore (map AddOp manyMessages))"
proof -
  have ds: "distinct (addedIds smallTrace)" by code_simp
  have d1: "''m1'' \<in> set (deletedIds newMessageStore smallTrace)" by code_simp
  have a2: "''m2'' \<in> set (addedIds smallTrace)" by code_simp
  have n2: "''m2'' \<notin> set (deletedIds newMessageStore smallTrace)" by code_simp
  have e2: "''m2'' \<notin> set (evictedIds newMessageStore smallTrace)" by code_simp
  have a3: "''m3'' \<notin> set (addedIds smallTrace)" by code_simp
  from message_index_consistency[where ops = smallTrace and messageId = "''m1''"] ds d1
  have s: "store_inv (runOps newMessageStore smallTrace)"
    and g1: "getMessage (runOps newMessageStore smallTrace) ''m1'' = None" by blast+
  from message_index_consistency[where ops = smallTrace and messageId = "''m2''"] ds a2 n2 e2
  have g2: "getMessage (runOps newMessageStore smallTrace) ''m2'' \<noteq> None" by blast
  from message_index_consistency[where ops = smallTrace and messageId = "''m3''"] ds a3
  have g3: "getMessage (runOps newMessageStore smallTrace) ''m3'' = None" by blast
  have ev1: "''m1'' \<in> msg_id ` set (evictedMessages twoMessages ''general'' 1)" by code_simp
  have ev2: "''m2'' \<notin> msg_id ` set (evictedMessages twoMessages ''general'' 1)" by code_simp
  have t2: "getMessage twoMessages ''m2'' \<noteq> None" by code_simp
  from message_index_consistency[where st = twoMessages and roomId = "''general''" and maxMessages = 1
      and messageId = "''m1''"] ev1
  have c1: "getMessage (cleanupOldMessages twoMessages ''general'' 1) ''m1'' = None" by simp
  from message_index_consistency[where st = twoMessages and roomId = "''general''" and maxMessages = 1
      and messageId = "''m2''"] ev2 t2
  have c2: "getMessage (cleanupOldMessages twoMessages ''general'' 1) ''m2'' \<noteq> None" by simp
  have dm: "distinct (addedIds (map AddOp manyMessages))"
    unfolding addedIds_adds by (rule manyMessages_distinct)
  from message_index_consistency[where ops = "map AddOp manyMessages"] dm
  have sm: "store_inv (runOps newMessageStore (map AddOp manyMessages))" by blast
  then have sm': "store_inv (addMessages newMessageStore manyMessages)" unfolding runOps_adds .
  have "\<forall>(r, history) \<in> set (ms_messages (addMessages newMessageStore manyMessages)).
           ''m'' \<notin> msg_id ` set history"
    using manyMessages_first_absent[OF sm'] by blast
  with message_index_consistency[where st = "addMessages newMessageStore manyMessages"
      and messageId = "''m''"] sm'
  have "getMessage (addMessages newMessageStore manyMessages) ''m'' = None" by blast
  then have gm: "getMessage (runOps newMessageStore (map AddOp manyMessages)) ''m'' = None"
    unfolding runOps_adds .
  have am: "''m'' \<in> set (addedIds (map AddOp manyMessages))"
    unfolding addedIds_adds by (rule manyMessages_first_added)
  have "set (deletedIds newMessageStore (map AddOp manyMessages)) = {}"
    by (simp add: deletedIds_adds)
  then have nd: "''m'' \<notin> set (deletedIds newMessageStore (map AddOp manyMessages))" by simp
  from message_index_consistency[where ops = "map AddOp manyMessages" and messageId = "''m''"
      and st = newMessageStore and uuid = "[]" and now = 0 and roomId = "[]" and userId = "[]"
      and content = "[]" and type = TextMessage and replyTo = None and requesterId = "[]"
      and isModeratorAction = False and maxMessages = 0]
  have "distinct (addedIds (map AddOp manyMessages)) \<longrightarrow>
      store_inv (runOps newMessageStore (map AddOp manyMessages)) \<and>
      (getMessage (runOps newMessageStore (map AddOp manyMessages)) ''m'' = None \<longleftrightarrow>
         ''m'' \<notin> set (addedIds (map AddOp manyMessages)) \<or>
         ''m'' \<in> set (deletedIds newMessageStore (map AddOp manyMessages)) \<or>
         ''m'' \<in> set (evictedIds newMessageStore (map AddOp manyMessages)))"
    by (elim conjE)
  with dm gm am nd
  have em: "''m'' \<in> set (evictedIds newMessageStore (map AddOp manyMessages))" by blast
  show ?thesis using s g1 g2 g3 c1 c2 sm gm am em by (intro conjI)
qed

end
